theory Spec2Isabelle
  imports Main "HOL-Library.Word"
begin

unbundle bit_operations_syntax

section \<open>Values, tokens, errors and byte sinks\<close>

text \<open>
  A Go \<^verbatim>\<open>string\<close> and a \<^verbatim>\<open>[]byte\<close> are sequences of 8-bit bytes: \<^typ>\<open>string\<close>.
  A \<^verbatim>\<open>float64\<close> is its IEEE-754 bit pattern (\<^verbatim>\<open>math.Float64bits\<close>), a
  \<^verbatim>\<open>float32\<close> likewise; the fixed-width integers are words. \<^verbatim>\<open>int\<close> and
  \<^verbatim>\<open>uint\<close> are taken at 64 bits.
\<close>

type_synonym float64 = "64 word"
type_synonym float32 = "32 word"

abbreviation dquote :: char where "dquote \<equiv> CHR 0x22"
abbreviation bslash :: char where "bslash \<equiv> CHR 0x5C"

text \<open>The dynamic type of an \<^verbatim>\<open>interface{}\<close> value, as \<^verbatim>\<open>%T\<close> prints it.\<close>

datatype go_type =
    TyNil | TyBool | TyFloat64 | TyFloat32
  | TyInt | TyInt8 | TyInt16 | TyInt32 | TyInt64
  | TyUint | TyUint8 | TyUint16 | TyUint32 | TyUint64
  | TyString | TySlice | TyMap | TyInterface | TyRawMessage
  | TyPtr go_type | TyNamed string

text \<open>
  What a caller can pass as \<^verbatim>\<open>interface{}\<close>. \<open>VSliceNil\<close> and \<open>VMapNil\<close> are the nil
  \<^verbatim>\<open>[]interface{}\<close> and the nil \<^verbatim>\<open>map[string]interface{}\<close>. The entries of a \<open>VMap\<close>
  are listed in the order in which \<^verbatim>\<open>range\<close> visits them, which Go leaves unspecified;
  their keys are distinct. \<open>VRawMessage None\<close> is the nil \<^verbatim>\<open>RawMessage\<close>.
  \<open>VOther\<close> stands for a value of any other type.
\<close>

datatype "value" =
    VNil
  | VBool bool
  | VFloat64 float64
  | VFloat32 float32
  | VInt "64 word" | VInt8 "8 word" | VInt16 "16 word" | VInt32 "32 word" | VInt64 "64 word"
  | VUint "64 word" | VUint8 "8 word" | VUint16 "16 word" | VUint32 "32 word" | VUint64 "64 word"
  | VString string
  | VSliceNil
  | VSlice "value list"
  | VMapNil
  | VMap "(string \<times> value) list"
  | VRawMessage "string option"
  | VOther go_type

fun type_of :: "value \<Rightarrow> go_type" where
  "type_of VNil = TyNil"
| "type_of (VBool _) = TyBool"
| "type_of (VFloat64 _) = TyFloat64"
| "type_of (VFloat32 _) = TyFloat32"
| "type_of (VInt _) = TyInt"
| "type_of (VInt8 _) = TyInt8"
| "type_of (VInt16 _) = TyInt16"
| "type_of (VInt32 _) = TyInt32"
| "type_of (VInt64 _) = TyInt64"
| "type_of (VUint _) = TyUint"
| "type_of (VUint8 _) = TyUint8"
| "type_of (VUint16 _) = TyUint16"
| "type_of (VUint32 _) = TyUint32"
| "type_of (VUint64 _) = TyUint64"
| "type_of (VString _) = TyString"
| "type_of VSliceNil = TySlice"
| "type_of (VSlice _) = TySlice"
| "type_of VMapNil = TyMap"
| "type_of (VMap _) = TyMap"
| "type_of (VRawMessage _) = TyRawMessage"
| "type_of (VOther t) = t"

text \<open>
  Modelled from the spec: the declarations of \<^verbatim>\<open>Token\<close>, \<^verbatim>\<open>Number\<close> and \<^verbatim>\<open>Delim\<close> are
  not among the source files. Section 3 of the specification gives the token kinds
  (null, boolean, number as unparsed decimal text, unescaped string, delimiter);
  \<^verbatim>\<open>newDefaultForToken\<close> also has a case for a \<^verbatim>\<open>float64\<close> token.
\<close>

datatype token =
    TNil
  | TBool bool
  | TNumber string
  | TFloat64 float64
  | TString string
  | TDelim char

text \<open>
  One constructor for each place where the code makes an error, a panic being kept
  apart from the returned errors. \<open>OutOfFuel\<close> is not an outcome of the program: it
  is what the decoder's model answers when its recursion bound is used up.
\<close>

datatype error =
    ErrInfOrNaN
  | ErrMarshalUnknownType go_type
  | ErrUnableToScan token go_type
  | ErrUnmarshalUnknownType go_type
  | ErrNonStringKey token
  | ErrParseFloat string
  | ErrSyntax string
  | ErrIO string
  | PanicZeroLengthBuffer
  | PanicNewDefaultForToken token
  | PanicDeref go_type
  | OutOfFuel

text \<open>
  Modelled from the spec: the code has a single error type (\<^verbatim>\<open>fmt.Errorf\<close> texts);
  the kinds are those of section 7 of the specification, assigned to the places
  as sections 4.3 and 4.5 say: a token that does not fit a scalar destination, and
  a type outside the closed set, are type errors; a delimiter that is not the one a
  list or map destination expects, and an object key that is not a string, are
  syntax errors. A panic has no kind.
\<close>

datatype error_kind = SyntaxError | TypeError | NumberFormatError | IOError

fun kind_of :: "error \<Rightarrow> error_kind option" where
  "kind_of ErrInfOrNaN = Some NumberFormatError"
| "kind_of (ErrMarshalUnknownType _) = Some TypeError"
| "kind_of (ErrUnableToScan _ t) =
     (if t = TyPtr TySlice \<or> t = TyPtr TyMap then Some SyntaxError else Some TypeError)"
| "kind_of (ErrUnmarshalUnknownType _) = Some TypeError"
| "kind_of (ErrNonStringKey _) = Some SyntaxError"
| "kind_of (ErrParseFloat _) = Some NumberFormatError"
| "kind_of (ErrSyntax _) = Some SyntaxError"
| "kind_of (ErrIO _) = Some IOError"
| "kind_of PanicZeroLengthBuffer = None"
| "kind_of (PanicNewDefaultForToken _) = None"
| "kind_of (PanicDeref _) = None"
| "kind_of OutOfFuel = None"

text \<open>
  An \<^verbatim>\<open>io.Writer\<close>: \<^verbatim>\<open>Write\<close> takes the sink's state and some bytes and gives the new
  state and the error, if any. \<open>Write_drop\<close> is a call whose error the code drops.
  \<open>buffer_Write\<close> is \<^verbatim>\<open>bytes.Buffer\<close>, which appends and never fails.
\<close>

type_synonym 'w writer = "'w \<Rightarrow> string \<Rightarrow> 'w \<times> error option"

definition Write_drop :: "'w writer \<Rightarrow> 'w \<Rightarrow> string \<Rightarrow> 'w" where
  "Write_drop wr w bs = fst (wr w bs)"

definition buffer_Write :: "string writer" where
  "buffer_Write w bs = (w @ bs, None)"

text \<open>The slice expression \<^verbatim>\<open>s[a:b]\<close>.\<close>

definition slice :: "'a list \<Rightarrow> nat \<Rightarrow> nat \<Rightarrow> 'a list" where
  "slice s a b = take (b - a) (drop a s)"

section \<open>String encoding\<close>

definition hex :: string where
  "hex = ''0123456789abcdef''"

text \<open>
  Modelled from the spec: the tables \<^verbatim>\<open>safeSet\<close> and \<^verbatim>\<open>htmlSafeSet\<close> are not among the
  source files. By section 4.4 of the specification the ASCII bytes that need an
  escape are those below \<^verbatim>\<open>0x20\<close>, the backslash and the double quote, and in
  HTML-safe mode also \<^verbatim>\<open><\<close>, \<^verbatim>\<open>>\<close> and \<^verbatim>\<open>&\<close>.
\<close>

definition safeSet :: "char \<Rightarrow> bool" where
  "safeSet b = ((0x20::nat) \<le> of_char b \<and> of_char b < (0x80::nat) \<and> b \<noteq> dquote \<and> b \<noteq> bslash)"

definition htmlSafeSet :: "char \<Rightarrow> bool" where
  "htmlSafeSet b = (safeSet b \<and> b \<noteq> CHR ''<'' \<and> b \<noteq> CHR ''>'' \<and> b \<noteq> CHR ''&'')"

text \<open>
  \<^verbatim>\<open>utf8.DecodeRuneInString\<close> of the Go library: the code point and width of the
  first well-formed UTF-8 sequence, or \<open>(RuneError, 1)\<close> when the bytes at the front
  are not one (\<open>(RuneError, 0)\<close> on the empty string).
\<close>

definition RuneError :: nat where
  "RuneError = 0xFFFD"

definition in_range :: "char \<Rightarrow> nat \<Rightarrow> nat \<Rightarrow> bool" where
  "in_range c lo hi = (lo \<le> of_char c \<and> of_char c \<le> hi)"

definition accept_lo :: "nat \<Rightarrow> nat" where
  "accept_lo b0 = (if b0 = 0xE0 then 0xA0 else if b0 = 0xF0 then 0x90 else 0x80)"

definition accept_hi :: "nat \<Rightarrow> nat" where
  "accept_hi b0 = (if b0 = 0xED then 0x9F else if b0 = 0xF4 then 0x8F else 0xBF)"

fun DecodeRuneInString :: "string \<Rightarrow> nat \<times> nat" where
  "DecodeRuneInString [] = (RuneError, 0)"
| "DecodeRuneInString (c0 # rest) =
     (let b0 = (of_char c0 :: nat) in
      if b0 < 0x80 then (b0, 1)
      else if 0xC2 \<le> b0 \<and> b0 \<le> 0xDF then
        (case rest of
           c1 # _ \<Rightarrow>
             if in_range c1 0x80 0xBF
             then ((b0 mod 32) * 64 + of_char c1 mod 64, 2)
             else (RuneError, 1)
         | _ \<Rightarrow> (RuneError, 1))
      else if 0xE0 \<le> b0 \<and> b0 \<le> 0xEF then
        (case rest of
           c1 # c2 # _ \<Rightarrow>
             if in_range c1 (accept_lo b0) (accept_hi b0) \<and> in_range c2 0x80 0xBF
             then ((b0 mod 16) * 4096 + (of_char c1 mod 64) * 64 + of_char c2 mod 64, 3)
             else (RuneError, 1)
         | _ \<Rightarrow> (RuneError, 1))
      else if 0xF0 \<le> b0 \<and> b0 \<le> 0xF4 then
        (case rest of
           c1 # c2 # c3 # _ \<Rightarrow>
             if in_range c1 (accept_lo b0) (accept_hi b0) \<and> in_range c2 0x80 0xBF
                \<and> in_range c3 0x80 0xBF
             then ((b0 mod 8) * 262144 + (of_char c1 mod 64) * 4096
                   + (of_char c2 mod 64) * 64 + of_char c3 mod 64, 4)
             else (RuneError, 1)
         | _ \<Rightarrow> (RuneError, 1))
      else (RuneError, 1))"

lemma DecodeRuneInString_size:
  "s \<noteq> [] \<Longrightarrow> 1 \<le> snd (DecodeRuneInString s) \<and> snd (DecodeRuneInString s) \<le> length s"
  by (cases s) (auto simp: Let_def split: list.splits)

declare DecodeRuneInString.simps [simp del]

text \<open>
  The loop of \<^verbatim>\<open>encodeString\<close>: \<open>start\<close> is the first byte not yet written, \<open>i\<close> the
  byte under inspection. Every \<^verbatim>\<open>Write\<close> in it drops its error. The loop gives
  back the sink and the last \<open>start\<close>.
\<close>

function encodeString_loop ::
  "'w writer \<Rightarrow> string \<Rightarrow> bool \<Rightarrow> nat \<Rightarrow> nat \<Rightarrow> 'w \<Rightarrow> 'w \<times> nat" where
  "encodeString_loop wr s escapeHTML start i w =
     (if \<not> i < length s then (w, start)
      else if (of_char (s ! i) :: nat) < 0x80 then
        (if htmlSafeSet (s ! i) \<or> (\<not> escapeHTML \<and> safeSet (s ! i))
         then encodeString_loop wr s escapeHTML start (i + 1) w
         else
           encodeString_loop wr s escapeHTML (i + 1) (i + 1)
             (let b = s ! i;
                  w1 = (if start < i then Write_drop wr w (slice s start i) else w);
                  w2 = Write_drop wr w1 [bslash]
              in if b = bslash \<or> b = dquote then Write_drop wr w2 [b]
                 else if b = CHR 0x0A then Write_drop wr w2 ''n''
                 else if b = CHR 0x0D then Write_drop wr w2 ''r''
                 else if b = CHR 0x09 then Write_drop wr w2 ''t''
                 else Write_drop wr (Write_drop wr (Write_drop wr w2 ''u00'')
                        [hex ! (of_char b div 16)]) [hex ! (of_char b mod 16)]))
      else if fst (DecodeRuneInString (drop i s)) = RuneError
              \<and> snd (DecodeRuneInString (drop i s)) = 1 then
        encodeString_loop wr s escapeHTML (i + 1) (i + 1)
          (Write_drop wr (if start < i then Write_drop wr w (slice s start i) else w)
             (bslash # ''ufffd''))
      else if fst (DecodeRuneInString (drop i s)) = 0x2028
              \<or> fst (DecodeRuneInString (drop i s)) = 0x2029 then
        encodeString_loop wr s escapeHTML
          (i + snd (DecodeRuneInString (drop i s))) (i + snd (DecodeRuneInString (drop i s)))
          (Write_drop wr
             (Write_drop wr (if start < i then Write_drop wr w (slice s start i) else w)
                (bslash # ''u202''))
             [hex ! (fst (DecodeRuneInString (drop i s)) mod 16)])
      else encodeString_loop wr s escapeHTML start (i + snd (DecodeRuneInString (drop i s))) w)"
  by pat_completeness auto
termination
proof (relation "measure (\<lambda>(wr, s, escapeHTML, start, i, w). length s - i)")
  fix wr :: "'w writer" and s :: string and escapeHTML :: bool and start i :: nat and w :: 'w
  assume "\<not> \<not> i < length s"
  then have "drop i s \<noteq> []" by simp
  then have "1 \<le> snd (DecodeRuneInString (drop i s))"
    using DecodeRuneInString_size by blast
  then show "((wr, s, escapeHTML, i + snd (DecodeRuneInString (drop i s)),
               i + snd (DecodeRuneInString (drop i s)),
               Write_drop wr
                (Write_drop wr (if start < i then Write_drop wr w (slice s start i) else w)
                  (bslash # ''u202''))
                [hex ! (fst (DecodeRuneInString (drop i s)) mod 16)]),
              wr, s, escapeHTML, start, i, w)
             \<in> measure (\<lambda>(wr, s, escapeHTML, start, i, w). length s - i)"
    using \<open>\<not> \<not> i < length s\<close> by simp
  from \<open>1 \<le> snd (DecodeRuneInString (drop i s))\<close>
  show "((wr, s, escapeHTML, start, i + snd (DecodeRuneInString (drop i s)), w),
              wr, s, escapeHTML, start, i, w)
             \<in> measure (\<lambda>(wr, s, escapeHTML, start, i, w). length s - i)"
    using \<open>\<not> \<not> i < length s\<close> by simp
qed auto

declare encodeString_loop.simps [simp del]

definition encodeString :: "'w writer \<Rightarrow> 'w \<Rightarrow> string \<Rightarrow> bool \<Rightarrow> 'w \<times> error option" where
  "encodeString wr w s escapeHTML =
     (let w0 = Write_drop wr w [dquote];
          (w1, start) = encodeString_loop wr s escapeHTML 0 0 w0;
          w2 = (if start < length s then Write_drop wr w1 (slice s start (length s)) else w1)
      in wr w2 [dquote])"

section \<open>Floating-point values\<close>

text \<open>
  The fields of the bit patterns (sign, biased exponent, fraction, read off the
  pattern as an unsigned number), \<^verbatim>\<open>math.IsNaN\<close>, \<^verbatim>\<open>math.IsInf(f, 0)\<close> and
  \<^verbatim>\<open>math.Abs\<close>, which clears the sign. A finite value is read as an integer multiple of the smallest
  subnormal: \<open>f64_scaled f\<close> is the value of \<open>f\<close> times \<open>2 ^ 1074\<close>, and
  \<open>f32_scaled f\<close> the value times \<open>2 ^ 149\<close>. Go's comparisons of floating
  values compare these, and are false when an operand is a NaN.
\<close>

definition f64_exp :: "float64 \<Rightarrow> nat" where
  "f64_exp f = unat f div 2 ^ 52 mod 2 ^ 11"

definition f64_frac :: "float64 \<Rightarrow> nat" where
  "f64_frac f = unat f mod 2 ^ 52"

definition f64_neg :: "float64 \<Rightarrow> bool" where
  "f64_neg f = (2 ^ 63 \<le> unat f)"

definition IsNaN :: "float64 \<Rightarrow> bool" where
  "IsNaN f = (f64_exp f = 0x7FF \<and> f64_frac f \<noteq> 0)"

definition IsInf :: "float64 \<Rightarrow> bool" where
  "IsInf f = (f64_exp f = 0x7FF \<and> f64_frac f = 0)"

definition Abs :: "float64 \<Rightarrow> float64" where
  "Abs f = word_of_nat (unat f mod 2 ^ 63)"

definition f64_scaled :: "float64 \<Rightarrow> int" where
  "f64_scaled f =
     (if f64_neg f then - 1 else 1)
       * (if f64_exp f = 0 then int (f64_frac f)
          else int (2 ^ 52 + f64_frac f) * 2 ^ (f64_exp f - 1))"

definition f64_lt :: "float64 \<Rightarrow> float64 \<Rightarrow> bool" where
  "f64_lt a b = (\<not> IsNaN a \<and> \<not> IsNaN b \<and> f64_scaled a < f64_scaled b)"

definition f64_ge :: "float64 \<Rightarrow> float64 \<Rightarrow> bool" where
  "f64_ge a b = (\<not> IsNaN a \<and> \<not> IsNaN b \<and> f64_scaled a \<ge> f64_scaled b)"

definition f64_ne :: "float64 \<Rightarrow> float64 \<Rightarrow> bool" where
  "f64_ne a b = (IsNaN a \<or> IsNaN b \<or> f64_scaled a \<noteq> f64_scaled b)"

definition f32_exp :: "float32 \<Rightarrow> nat" where
  "f32_exp f = unat f div 2 ^ 23 mod 2 ^ 8"

definition f32_frac :: "float32 \<Rightarrow> nat" where
  "f32_frac f = unat f mod 2 ^ 23"

definition f32_neg :: "float32 \<Rightarrow> bool" where
  "f32_neg f = (2 ^ 31 \<le> unat f)"

definition f32_IsNaN :: "float32 \<Rightarrow> bool" where
  "f32_IsNaN f = (f32_exp f = 0xFF \<and> f32_frac f \<noteq> 0)"

definition f32_scaled :: "float32 \<Rightarrow> int" where
  "f32_scaled f =
     (if f32_neg f then - 1 else 1)
       * (if f32_exp f = 0 then int (f32_frac f)
          else int (2 ^ 23 + f32_frac f) * 2 ^ (f32_exp f - 1))"

definition f32_lt :: "float32 \<Rightarrow> float32 \<Rightarrow> bool" where
  "f32_lt a b = (\<not> f32_IsNaN a \<and> \<not> f32_IsNaN b \<and> f32_scaled a < f32_scaled b)"

definition f32_ge :: "float32 \<Rightarrow> float32 \<Rightarrow> bool" where
  "f32_ge a b = (\<not> f32_IsNaN a \<and> \<not> f32_IsNaN b \<and> f32_scaled a \<ge> f32_scaled b)"

text \<open>
  The conversion \<^verbatim>\<open>float64(v)\<close> of a \<^verbatim>\<open>float32\<close>, which is exact (a NaN stays a
  NaN, made quiet): a subnormal
  \<open>m * 2 ^ -149\<close> whose highest set bit is bit \<open>k\<close> becomes the normal number
  with exponent \<open>k - 149\<close>.
\<close>

fun top_bit :: "nat \<Rightarrow> nat" where
  "top_bit n = (if n < 2 then 0 else Suc (top_bit (n div 2)))"

declare top_bit.simps [simp del]

definition f64_pack :: "bool \<Rightarrow> nat \<Rightarrow> nat \<Rightarrow> float64" where
  "f64_pack neg e frac =
     word_of_nat ((if neg then 2 ^ 63 else 0) + e * 2 ^ 52 + frac)"

definition f32_pack :: "bool \<Rightarrow> nat \<Rightarrow> nat \<Rightarrow> float32" where
  "f32_pack neg e frac =
     word_of_nat ((if neg then 2 ^ 31 else 0) + e * 2 ^ 23 + frac)"

definition float64_of_float32 :: "float32 \<Rightarrow> float64" where
  "float64_of_float32 v =
     (let e = f32_exp v; m = f32_frac v; neg = f32_neg v in
      if e = 0xFF then
        f64_pack neg 0x7FF (if m = 0 \<or> m \<ge> 2 ^ 22 then m * 2 ^ 29 else 2 ^ 51 + m * 2 ^ 29)
      else if e = 0 then
        (if m = 0 then f64_pack neg 0 0
         else f64_pack neg (top_bit m + 874) (m * 2 ^ (52 - top_bit m) - 2 ^ 52))
      else f64_pack neg (e + 896) (m * 2 ^ 29))"

text \<open>
  The conversion \<^verbatim>\<open>float32(x)\<close> of a \<^verbatim>\<open>float64\<close>: the nearest \<^verbatim>\<open>float32\<close>, ties
  to the even significand; what is too large becomes an infinity, and a NaN stays a
  NaN (made quiet). \<open>round_shift M sh\<close>
  is \<open>M / 2 ^ sh\<close> rounded so.
\<close>

definition round_shift :: "nat \<Rightarrow> nat \<Rightarrow> nat" where
  "round_shift M sh =
     (let q = M div 2 ^ sh; r = M mod 2 ^ sh in
      if 2 * r > 2 ^ sh \<or> (2 * r = 2 ^ sh \<and> odd q) then q + 1 else q)"

definition float32_of_float64 :: "float64 \<Rightarrow> float32" where
  "float32_of_float64 x =
     (let e = f64_exp x; m = f64_frac x; neg = f64_neg x in
      if e = 0x7FF then
        f32_pack neg 0xFF (if m = 0 \<or> m \<ge> 2 ^ 51 then m div 2 ^ 29 else 2 ^ 22 + m div 2 ^ 29)
      else if e = 0 then f32_pack neg 0 0
      else if e \<ge> 897 then
        (let mant = round_shift (2 ^ 52 + m) 29;
             e' = (if mant = 2 ^ 24 then e - 895 else e - 896);
             frac = (if mant = 2 ^ 24 then 0 else mant - 2 ^ 23)
         in if e' \<ge> 0xFF then f32_pack neg 0xFF 0 else f32_pack neg e' frac)
      else
        (let mant = round_shift (2 ^ 52 + m) (926 - e)
         in if mant \<ge> 2 ^ 23 then f32_pack neg 1 (mant - 2 ^ 23) else f32_pack neg 0 mant))"

text \<open>
  The constants \<^verbatim>\<open>1e-6\<close> and \<^verbatim>\<open>1e21\<close> of the comparisons, as Go converts them to
  each width: the nearest value of that width.
\<close>

definition c64_1em6 :: float64 where "c64_1em6 = 0x3EB0C6F7A0B5ED8D"
definition c64_1e21 :: float64 where "c64_1e21 = 0x444B1AE4D6E2EF50"
definition c32_1em6 :: float32 where "c32_1em6 = 0x358637BD"
definition c32_1e21 :: float32 where "c32_1e21 = 0x6258D727"

section \<open>The number formatter\<close>

text \<open>
  The functions of Go's \<^verbatim>\<open>strconv\<close> that format and parse floating values are
  parameters of the model: \<open>AppendFloat L f fmt prec bitSize\<close> is the text that
  \<^verbatim>\<open>strconv.AppendFloat\<close> appends for \<open>f\<close> (precision \<open>-1\<close> asks for the fewest
  digits that read back as \<open>f\<close>), and \<open>ParseFloat L s bitSize\<close> what
  \<^verbatim>\<open>strconv.ParseFloat\<close> returns.
\<close>

record strconv =
  AppendFloat :: "float64 \<Rightarrow> char \<Rightarrow> int \<Rightarrow> nat \<Rightarrow> string"
  ParseFloat :: "string \<Rightarrow> nat \<Rightarrow> error + float64"

text \<open>The choice between \<^verbatim>\<open>'f'\<close> and \<^verbatim>\<open>'e'\<close> in \<^verbatim>\<open>floatEncoder.encode\<close>.\<close>

definition float_fmt :: "nat \<Rightarrow> float64 \<Rightarrow> char" where
  "float_fmt bits f =
     (let abs = Abs f in
      if f64_ne abs 0 \<and>
         (bits = 64 \<and> (f64_lt abs c64_1em6 \<or> f64_ge abs c64_1e21)
          \<or> bits = 32 \<and> (f32_lt (float32_of_float64 abs) c32_1em6
                          \<or> f32_ge (float32_of_float64 abs) c32_1e21))
      then CHR ''e'' else CHR ''f'')"

text \<open>The clean-up of \<^verbatim>\<open>e-09\<close> to \<^verbatim>\<open>e-9\<close>.\<close>

definition clean_exponent :: "string \<Rightarrow> string" where
  "clean_exponent b =
     (let n = length b in
      if n \<ge> 4 \<and> b ! (n - 4) = CHR ''e'' \<and> b ! (n - 3) = CHR ''-'' \<and> b ! (n - 2) = CHR ''0''
      then take (n - 1) (b[n - 2 := b ! (n - 1)])
      else b)"

definition float_text :: "strconv \<Rightarrow> nat \<Rightarrow> float64 \<Rightarrow> string" where
  "float_text L bits f =
     (let fmt = float_fmt bits f;
          b = AppendFloat L f fmt (- 1) bits
      in if fmt = CHR ''e'' then clean_exponent b else b)"

definition encode :: "strconv \<Rightarrow> nat \<Rightarrow> 'w writer \<Rightarrow> 'w \<Rightarrow> float64 \<Rightarrow> 'w \<times> error option" where
  "encode L bits wr e v =
     (if IsInf v \<or> IsNaN v then (e, Some ErrInfOrNaN)
      else wr e (float_text L bits v))"

definition float32Encoder :: "strconv \<Rightarrow> 'w writer \<Rightarrow> 'w \<Rightarrow> float64 \<Rightarrow> 'w \<times> error option" where
  "float32Encoder L = encode L 32"

definition float64Encoder :: "strconv \<Rightarrow> 'w writer \<Rightarrow> 'w \<Rightarrow> float64 \<Rightarrow> 'w \<times> error option" where
  "float64Encoder L = encode L 64"

section \<open>The value encoder\<close>

text \<open>
  \<^verbatim>\<open>strconv.AppendBool\<close>, \<^verbatim>\<open>strconv.AppendUint\<close> and \<^verbatim>\<open>strconv.AppendInt\<close> in base 10.
\<close>

definition AppendBool :: "bool \<Rightarrow> string" where
  "AppendBool b = (if b then ''true'' else ''false'')"

fun AppendUint :: "nat \<Rightarrow> string" where
  "AppendUint n =
     (if n < 10 then [char_of (48 + n)]
      else AppendUint (n div 10) @ [char_of (48 + n mod 10)])"

declare AppendUint.simps [simp del]

definition AppendInt :: "int \<Rightarrow> string" where
  "AppendInt i = (if i < 0 then CHR ''-'' # AppendUint (nat (- i)) else AppendUint (nat i))"

text \<open>
  \<^verbatim>\<open>marshalTo\<close>. The scalar cases fill the buffer \<^verbatim>\<open>bb\<close>, which is written at the
  end of the function; \<open>write_bb\<close> is that end. \<open>marshalTo_elems\<close> and
  \<open>marshalTo_members\<close> are the two \<^verbatim>\<open>range\<close> loops, with the flag \<^verbatim>\<open>first\<close>.
  The errors of the writes of brackets, commas, colons and keys are dropped, as in
  the code.
\<close>

definition write_bb :: "'w writer \<Rightarrow> 'w \<Rightarrow> string \<Rightarrow> 'w \<times> error option" where
  "write_bb wr w bb = (if length bb = 0 then (w, Some PanicZeroLengthBuffer) else wr w bb)"

fun marshalTo :: "strconv \<Rightarrow> 'w writer \<Rightarrow> 'w \<Rightarrow> value \<Rightarrow> 'w \<times> error option"
  and marshalTo_elems ::
    "strconv \<Rightarrow> 'w writer \<Rightarrow> 'w \<Rightarrow> bool \<Rightarrow> value list \<Rightarrow> 'w \<times> error option"
  and marshalTo_members ::
    "strconv \<Rightarrow> 'w writer \<Rightarrow> 'w \<Rightarrow> bool \<Rightarrow> (string \<times> value) list \<Rightarrow> 'w \<times> error option"
where
  "marshalTo L wr w VNil = wr w ''null''"
| "marshalTo L wr w (VBool v) = write_bb wr w (AppendBool v)"
| "marshalTo L wr w (VFloat64 v) = float64Encoder L wr w v"
| "marshalTo L wr w (VFloat32 v) = float32Encoder L wr w (float64_of_float32 v)"
| "marshalTo L wr w (VInt v) = write_bb wr w (AppendInt (sint v))"
| "marshalTo L wr w (VInt8 v) = write_bb wr w (AppendInt (sint v))"
| "marshalTo L wr w (VInt16 v) = write_bb wr w (AppendInt (sint v))"
| "marshalTo L wr w (VInt32 v) = write_bb wr w (AppendInt (sint v))"
| "marshalTo L wr w (VInt64 v) = write_bb wr w (AppendInt (sint v))"
| "marshalTo L wr w (VUint v) = write_bb wr w (AppendUint (unat v))"
| "marshalTo L wr w (VUint8 v) = write_bb wr w (AppendUint (unat v))"
| "marshalTo L wr w (VUint16 v) = write_bb wr w (AppendUint (unat v))"
| "marshalTo L wr w (VUint32 v) = write_bb wr w (AppendUint (unat v))"
| "marshalTo L wr w (VUint64 v) = write_bb wr w (AppendUint (unat v))"
| "marshalTo L wr w (VString v) = encodeString wr w v False"
| "marshalTo L wr w VSliceNil = write_bb wr w ''null''"
| "marshalTo L wr w (VSlice v) =
     (case marshalTo_elems L wr (Write_drop wr w ''['') True v of
        (w', Some err) \<Rightarrow> (w', Some err)
      | (w', None) \<Rightarrow> wr w' '']'')"
| "marshalTo L wr w VMapNil = write_bb wr w ''null''"
| "marshalTo L wr w (VMap v) =
     (case marshalTo_members L wr (Write_drop wr w ''{'') True v of
        (w', Some err) \<Rightarrow> (w', Some err)
      | (w', None) \<Rightarrow> wr w' ''}'')"
| "marshalTo L wr w (VRawMessage m) = (w, Some (ErrMarshalUnknownType TyRawMessage))"
| "marshalTo L wr w (VOther t) = (w, Some (ErrMarshalUnknownType t))"
| "marshalTo_elems L wr w first [] = (w, None)"
| "marshalTo_elems L wr w first (x # xs) =
     (case marshalTo L wr (if \<not> first then Write_drop wr w '','' else w) x of
        (w', Some err) \<Rightarrow> (w', Some err)
      | (w', None) \<Rightarrow> marshalTo_elems L wr w' False xs)"
| "marshalTo_members L wr w first [] = (w, None)"
| "marshalTo_members L wr w first ((k, el) # kvs) =
     (case marshalTo L wr
             (Write_drop wr
                (fst (encodeString wr (if \<not> first then Write_drop wr w '','' else w) k False))
                '':'') el of
        (w', Some err) \<Rightarrow> (w', Some err)
      | (w', None) \<Rightarrow> marshalTo_members L wr w' False kvs)"

text \<open>\<^verbatim>\<open>marshal\<close> encodes into a fresh \<^verbatim>\<open>bytes.Buffer\<close> and returns its bytes and the error.\<close>

definition marshal :: "strconv \<Rightarrow> value \<Rightarrow> string \<times> error option" where
  "marshal L v = marshalTo L buffer_Write [] v"

text \<open>\<^verbatim>\<open>RawMessage.MarshalJSON\<close>: the bytes of \<open>m\<close>, or \<^verbatim>\<open>null\<close> when \<open>m\<close> is nil.\<close>

definition MarshalJSON :: "string option \<Rightarrow> string \<times> error option" where
  "MarshalJSON m = (case m of None \<Rightarrow> (''null'', None) | Some b \<Rightarrow> (b, None))"

section \<open>The value decoder\<close>

text \<open>
  The destination \<^verbatim>\<open>vin\<close> of the decoder is a pointer held in an \<^verbatim>\<open>interface{}\<close>;
  the type switch looks at its type only, so the model takes the type and gives
  back the value that the code stores through the pointer. A byte source
  (\<^verbatim>\<open>unreader\<close>) is the list of the bytes not yet read.

  \<open>tokDelim\<close> is \<^verbatim>\<open>tokDelim, _ := tok.(Delim)\<close>: the zero \<^verbatim>\<open>Delim\<close> when the token is
  no delimiter.
\<close>

type_synonym reader = string

definition tokDelim :: "token \<Rightarrow> char" where
  "tokDelim tok = (case tok of TDelim d \<Rightarrow> d | _ \<Rightarrow> CHR 0x00)"

fun newDefaultForToken :: "token \<Rightarrow> error + go_type" where
  "newDefaultForToken TNil = Inr (TyPtr TyInterface)"
| "newDefaultForToken (TBool _) = Inr (TyPtr TyBool)"
| "newDefaultForToken (TNumber _) = Inr (TyPtr TyFloat64)"
| "newDefaultForToken (TFloat64 _) = Inr (TyPtr TyFloat64)"
| "newDefaultForToken (TString _) = Inr (TyPtr TyString)"
| "newDefaultForToken (TDelim d) =
     (if d = CHR ''['' then Inr (TyPtr TySlice)
      else if d = CHR ''{'' then Inr (TyPtr TyMap)
      else Inl (PanicNewDefaultForToken (TDelim d)))"

text \<open>\<open>deref t v\<close>: the pointer has type \<open>t\<close> and points to \<open>v\<close>.\<close>

definition deref :: "go_type \<Rightarrow> value \<Rightarrow> error + value" where
  "deref t v =
     (if t = TyPtr TyInterface then (if v = VNil then Inr VNil else Inl (PanicDeref t))
      else if t = TyPtr TyBool \<or> t = TyPtr TyString \<or> t = TyPtr TyFloat64
              \<or> t = TyPtr TySlice \<or> t = TyPtr TyMap then Inr v
      else Inl (PanicDeref t))"

text \<open>\<^verbatim>\<open>mapV[k] = v\<close> on the list of a map's entries.\<close>

fun map_store :: "(string \<times> value) list \<Rightarrow> string \<Rightarrow> value \<Rightarrow> (string \<times> value) list" where
  "map_store [] k v = [(k, v)]"
| "map_store ((k', v') # kvs) k v =
     (if k' = k then (k, v) # kvs else (k', v') # map_store kvs k v)"

text \<open>
  \<^verbatim>\<open>unmarshalNext\<close>, with the tokenizer \<^verbatim>\<open>readToken\<close> as the parameter \<open>rt\<close>.
  \<open>unmarshal_elems\<close> and \<open>unmarshal_members\<close> are the two \<^verbatim>\<open>for\<close> loops. The loops
  end only when the tokenizer delivers the closing delimiter or fails, so the model
  counts their rounds: each round takes one unit of \<open>fuel\<close>, and a loop entered
  without fuel answers \<open>OutOfFuel\<close>.
\<close>

function (sequential) unmarshalNext ::
    "strconv \<Rightarrow> (reader \<Rightarrow> error + token \<times> reader) \<Rightarrow> nat \<Rightarrow> reader \<Rightarrow> token \<Rightarrow> go_type
      \<Rightarrow> error + value \<times> reader"
  and unmarshal_elems ::
    "strconv \<Rightarrow> (reader \<Rightarrow> error + token \<times> reader) \<Rightarrow> nat \<Rightarrow> reader \<Rightarrow> value list
      \<Rightarrow> error + value list \<times> reader"
  and unmarshal_members ::
    "strconv \<Rightarrow> (reader \<Rightarrow> error + token \<times> reader) \<Rightarrow> nat \<Rightarrow> reader
      \<Rightarrow> (string \<times> value) list \<Rightarrow> error + (string \<times> value) list \<times> reader"
where
  "unmarshalNext L rt fuel r tok vin =
     (if vin = TyPtr TyInterface then
        (if tok = TNil then Inr (VNil, r) else Inl (ErrUnableToScan tok vin))
      else if vin = TyPtr TyBool then
        (case tok of TBool tokv \<Rightarrow> Inr (VBool tokv, r) | _ \<Rightarrow> Inl (ErrUnableToScan tok vin))
      else if vin = TyPtr TyFloat64 then
        (case tok of
           TNumber tokv \<Rightarrow>
             (case ParseFloat L tokv 64 of Inl err \<Rightarrow> Inl err | Inr f \<Rightarrow> Inr (VFloat64 f, r))
         | _ \<Rightarrow> Inl (ErrUnableToScan tok vin))
      else if vin = TyPtr TyString then
        (case tok of TString tokv \<Rightarrow> Inr (VString tokv, r) | _ \<Rightarrow> Inl (ErrUnableToScan tok vin))
      else if vin = TyPtr TySlice then
        (if tokDelim tok \<noteq> CHR ''['' then Inl (ErrUnableToScan tok vin)
         else case unmarshal_elems L rt fuel r [] of
                Inl err \<Rightarrow> Inl err
              | Inr (sliceV, r') \<Rightarrow> Inr (VSlice sliceV, r'))
      else if vin = TyPtr TyMap then
        (if tokDelim tok \<noteq> CHR ''{'' then Inl (ErrUnableToScan tok vin)
         else case unmarshal_members L rt fuel r [] of
                Inl err \<Rightarrow> Inl err
              | Inr (mapV, r') \<Rightarrow> Inr (VMap mapV, r'))
      else Inl (ErrUnmarshalUnknownType vin))"
| "unmarshal_elems L rt 0 r sliceV = Inl OutOfFuel"
| "unmarshal_elems L rt (Suc fuel) r sliceV =
     (case rt r of
        Inl err \<Rightarrow> Inl err
      | Inr (nextTok, r1) \<Rightarrow>
          if tokDelim nextTok = CHR '']'' then Inr (sliceV, r1)
          else case newDefaultForToken nextTok of
            Inl p \<Rightarrow> Inl p
          | Inr elV \<Rightarrow>
              (case unmarshalNext L rt fuel r1 nextTok elV of
                 Inl err \<Rightarrow> Inl err
               | Inr (v, r2) \<Rightarrow>
                   (case deref elV v of
                      Inl p \<Rightarrow> Inl p
                    | Inr dv \<Rightarrow> unmarshal_elems L rt fuel r2 (sliceV @ [dv]))))"
| "unmarshal_members L rt 0 r mapV = Inl OutOfFuel"
| "unmarshal_members L rt (Suc fuel) r mapV =
     (case rt r of
        Inl err \<Rightarrow> Inl err
      | Inr (keyTok, r1) \<Rightarrow>
          if tokDelim keyTok = CHR ''}'' then Inr (mapV, r1)
          else case rt r1 of
            Inl err \<Rightarrow> Inl err
          | Inr (nextTok, r2) \<Rightarrow>
              (case newDefaultForToken nextTok of
                 Inl p \<Rightarrow> Inl p
               | Inr elV \<Rightarrow>
                   (case unmarshalNext L rt fuel r2 nextTok elV of
                      Inl err \<Rightarrow> Inl err
                    | Inr (v, r3) \<Rightarrow>
                        (case keyTok of
                           TString keyTokStr \<Rightarrow>
                             (case deref elV v of
                                Inl p \<Rightarrow> Inl p
                              | Inr dv \<Rightarrow>
                                  unmarshal_members L rt fuel r3 (map_store mapV keyTokStr dv))
                         | _ \<Rightarrow> Inl (ErrNonStringKey keyTok)))))"
  by pat_completeness auto
termination
  by (relation "measure (\<lambda>x. case x of
         Inl (L, rt, fuel, r, tok, vin) \<Rightarrow> 2 * fuel + 1
       | Inr (Inl (L, rt, fuel, r, sliceV)) \<Rightarrow> 2 * fuel
       | Inr (Inr (L, rt, fuel, r, mapV)) \<Rightarrow> 2 * fuel)") auto

declare unmarshalNext.simps [simp del]

definition unmarshalFrom ::
  "strconv \<Rightarrow> (reader \<Rightarrow> error + token \<times> reader) \<Rightarrow> nat \<Rightarrow> reader \<Rightarrow> go_type
    \<Rightarrow> error + value \<times> reader" where
  "unmarshalFrom L rt fuel r vin =
     (case rt r of
        Inl err \<Rightarrow> Inl err
      | Inr (tok, r') \<Rightarrow> unmarshalNext L rt fuel r' tok vin)"

section \<open>The tokenizer\<close>

text \<open>
  Modelled from the spec: \<^verbatim>\<open>readToken\<close> is not among the source files. This is
  section 4.1 of the specification: leading space, tab, newline and carriage return
  are skipped; the keywords \<^verbatim>\<open>true\<close>, \<^verbatim>\<open>false\<close>, \<^verbatim>\<open>null\<close>, the structural characters,
  quoted strings and numerals are recognised; a string is unescaped (the eight short
  escapes and \<^verbatim>\<open>\uXXXX\<close>, a surrogate pair giving one code point); a numeral is
  \<^verbatim>\<open>-?digit+(.digit+)?([eE][+-]?digit+)?\<close> and is kept as text, the byte after it
  staying unread. A byte that starts no token, a string or numeral that the input
  ends in the middle of, a wrong escape and an unpaired surrogate are syntax errors.
  At the end of the input there is no byte to read: the source's \<^verbatim>\<open>io.EOF\<close>.

  Of the six structural characters, the four brackets are delivered as delimiter
  tokens. The separators \<^verbatim>\<open>,\<close> and \<^verbatim>\<open>:\<close> are recognised and passed over, as white
  space is: the loops of \<^verbatim>\<open>unmarshalNext\<close> (section 4.3, lines 233 to 289 of
  \<^verbatim>\<open>vjson.go\<close>) take the token after an element as the next element or the closing
  bracket, and the token after a key as the value of the member, and never consume
  a separator, so that the tokenizer they are written for does not deliver one.
\<close>

definition is_space :: "char \<Rightarrow> bool" where
  "is_space c = (c = CHR '' '' \<or> c = CHR 0x09 \<or> c = CHR 0x0A \<or> c = CHR 0x0D)"

definition is_digit :: "char \<Rightarrow> bool" where
  "is_digit c = ((48::nat) \<le> of_char c \<and> of_char c \<le> (57::nat))"

definition is_separator :: "char \<Rightarrow> bool" where
  "is_separator c = (c = CHR '','' \<or> c = CHR '':'')"

definition is_delim :: "char \<Rightarrow> bool" where
  "is_delim c = (c = CHR ''['' \<or> c = CHR '']'' \<or> c = CHR ''{'' \<or> c = CHR ''}'')"

definition hexval :: "char \<Rightarrow> nat option" where
  "hexval c =
     (let n = (of_char c :: nat) in
      if 48 \<le> n \<and> n \<le> 57 then Some (n - 48)
      else if 97 \<le> n \<and> n \<le> 102 then Some (n - 87)
      else if 65 \<le> n \<and> n \<le> 70 then Some (n - 55)
      else None)"

definition hex4 :: "char \<Rightarrow> char \<Rightarrow> char \<Rightarrow> char \<Rightarrow> nat option" where
  "hex4 a b c d =
     (case (hexval a, hexval b, hexval c, hexval d) of
        (Some x, Some y, Some z, Some u) \<Rightarrow> Some (x * 4096 + y * 256 + z * 16 + u)
      | _ \<Rightarrow> None)"

text \<open>The UTF-8 encoding of a code point.\<close>

definition EncodeRune :: "nat \<Rightarrow> string" where
  "EncodeRune r =
     (if r < 0x80 then [char_of r]
      else if r < 0x800 then [char_of (0xC0 + r div 64), char_of (0x80 + r mod 64)]
      else if r < 0x10000 then
        [char_of (0xE0 + r div 4096), char_of (0x80 + r div 64 mod 64), char_of (0x80 + r mod 64)]
      else
        [char_of (0xF0 + r div 262144), char_of (0x80 + r div 4096 mod 64),
         char_of (0x80 + r div 64 mod 64), char_of (0x80 + r mod 64)])"

definition short_escape :: "char \<Rightarrow> char option" where
  "short_escape e =
     (if e = dquote \<or> e = bslash \<or> e = CHR ''/'' then Some e
      else if e = CHR ''b'' then Some (CHR 0x08)
      else if e = CHR ''f'' then Some (CHR 0x0C)
      else if e = CHR ''n'' then Some (CHR 0x0A)
      else if e = CHR ''r'' then Some (CHR 0x0D)
      else if e = CHR ''t'' then Some (CHR 0x09)
      else None)"

text \<open>The rest of a string literal, after the opening quote; \<open>acc\<close> is the text so far.\<close>

fun read_string :: "string \<Rightarrow> string \<Rightarrow> error + string \<times> string" where
  "read_string acc [] = Inl (ErrSyntax ''unterminated string'')"
| "read_string acc (c # cs) =
     (if c = dquote then Inr (acc, cs)
      else if c \<noteq> bslash then read_string (acc @ [c]) cs
      else case cs of
        [] \<Rightarrow> Inl (ErrSyntax ''unterminated string'')
      | e # cs1 \<Rightarrow>
          if e \<noteq> CHR ''u'' then
            (case short_escape e of
               None \<Rightarrow> Inl (ErrSyntax ''invalid escape'')
             | Some b \<Rightarrow> read_string (acc @ [b]) cs1)
          else case cs1 of
            h1 # h2 # h3 # h4 # cs2 \<Rightarrow>
              (case hex4 h1 h2 h3 h4 of
                 None \<Rightarrow> Inl (ErrSyntax ''invalid escape'')
               | Some u \<Rightarrow>
                   if 0xDC00 \<le> u \<and> u \<le> 0xDFFF then Inl (ErrSyntax ''unpaired surrogate'')
                   else if 0xD800 \<le> u \<and> u \<le> 0xDBFF then
                     (case cs2 of
                        b1 # u1 # l1 # l2 # l3 # l4 # cs3 \<Rightarrow>
                          if b1 = bslash \<and> u1 = CHR ''u'' then
                            (case hex4 l1 l2 l3 l4 of
                               None \<Rightarrow> Inl (ErrSyntax ''invalid escape'')
                             | Some lo \<Rightarrow>
                                 if 0xDC00 \<le> lo \<and> lo \<le> 0xDFFF then
                                   read_string
                                     (acc @ EncodeRune
                                        (0x10000 + (u - 0xD800) * 0x400 + (lo - 0xDC00)))
                                     cs3
                                 else Inl (ErrSyntax ''unpaired surrogate''))
                          else Inl (ErrSyntax ''unpaired surrogate'')
                      | _ \<Rightarrow> Inl (ErrSyntax ''unpaired surrogate''))
                   else read_string (acc @ EncodeRune u) cs2)
          | _ \<Rightarrow> Inl (ErrSyntax ''invalid escape''))"

text \<open>
  A numeral at the front of the input: its text and the input after it. \<open>digits\<close>
  splits off the longest run of digits.
\<close>

definition digits :: "string \<Rightarrow> string \<times> string" where
  "digits s = (takeWhile is_digit s, dropWhile is_digit s)"

definition read_exponent :: "string \<Rightarrow> string \<Rightarrow> error + string \<times> string" where
  "read_exponent pre s =
     (case s of
        e # s1 \<Rightarrow>
          if e = CHR ''e'' \<or> e = CHR ''E'' then
            (let sgn = (case s1 of c # _ \<Rightarrow> if c = CHR ''+'' \<or> c = CHR ''-'' then [c] else [] | [] \<Rightarrow> []);
                 s2 = drop (length sgn) s1
             in if fst (digits s2) = [] then Inl (ErrSyntax ''unterminated numeral'')
                else Inr (pre @ e # sgn @ fst (digits s2), snd (digits s2)))
          else Inr (pre, s)
      | [] \<Rightarrow> Inr (pre, s))"

definition read_fraction :: "string \<Rightarrow> string \<Rightarrow> error + string \<times> string" where
  "read_fraction pre s =
     (case s of
        d # s1 \<Rightarrow>
          if d = CHR ''.'' then
            (if fst (digits s1) = [] then Inl (ErrSyntax ''unterminated numeral'')
             else read_exponent (pre @ d # fst (digits s1)) (snd (digits s1)))
          else read_exponent pre s
      | [] \<Rightarrow> Inr (pre, s))"

definition read_number :: "string \<Rightarrow> error + string \<times> string" where
  "read_number s =
     (let sgn = (case s of c # _ \<Rightarrow> if c = CHR ''-'' then [c] else [] | [] \<Rightarrow> []);
          s1 = drop (length sgn) s
      in if fst (digits s1) = [] then Inl (ErrSyntax ''unterminated numeral'')
         else read_fraction (sgn @ fst (digits s1)) (snd (digits s1)))"

definition readToken :: "reader \<Rightarrow> error + token \<times> reader" where
  "readToken r =
     (case dropWhile (\<lambda>c. is_space c \<or> is_separator c) r of
        [] \<Rightarrow> Inl (ErrIO ''EOF'')
      | c # cs \<Rightarrow>
          if is_delim c then Inr (TDelim c, cs)
          else if c = dquote then
            (case read_string [] cs of
               Inl err \<Rightarrow> Inl err
             | Inr (s, rest) \<Rightarrow> Inr (TString s, rest))
          else if c = CHR ''n'' then
            (if take 3 cs = ''ull'' then Inr (TNil, drop 3 cs) else Inl (ErrSyntax ''bad literal''))
          else if c = CHR ''t'' then
            (if take 3 cs = ''rue'' then Inr (TBool True, drop 3 cs)
             else Inl (ErrSyntax ''bad literal''))
          else if c = CHR ''f'' then
            (if take 4 cs = ''alse'' then Inr (TBool False, drop 4 cs)
             else Inl (ErrSyntax ''bad literal''))
          else if c = CHR ''-'' \<or> is_digit c then
            (case read_number (c # cs) of
               Inl err \<Rightarrow> Inl err
             | Inr (n, rest) \<Rightarrow> Inr (TNumber n, rest))
          else Inl (ErrSyntax ''unexpected byte''))"

text \<open>\<^verbatim>\<open>unmarshal\<close> reads from the bytes \<open>data\<close>.\<close>

definition unmarshal :: "strconv \<Rightarrow> nat \<Rightarrow> string \<Rightarrow> go_type \<Rightarrow> error + value \<times> reader" where
  "unmarshal L fuel data vin = unmarshalFrom L readToken fuel data vin"

text \<open>The fixed-width integer types, and the \<^verbatim>\<open>float64\<close> values 1 and 2.\<close>

definition fixed_width_ints :: "go_type list" where
  "fixed_width_ints =
     [TyInt, TyInt8, TyInt16, TyInt32, TyInt64, TyUint, TyUint8, TyUint16, TyUint32, TyUint64]"

definition one_f64 :: float64 where "one_f64 = 0x3FF0000000000000"
definition two_f64 :: float64 where "two_f64 = 0x4000000000000000"

text \<open>
  The \<^verbatim>\<open>float64\<close> values \<^verbatim>\<open>1e-9\<close> and \<^verbatim>\<open>123.0\<close>, and a stand-in for \<^verbatim>\<open>strconv\<close>
  that gives the texts Go gives for the three examples of the specification.
\<close>

definition f64_1em9 :: float64 where "f64_1em9 = 0x3E112E0BE826D695"
definition f64_123 :: float64 where "f64_123 = 0x405EC00000000000"

definition strconv_examples :: strconv where
  "strconv_examples =
     \<lparr>AppendFloat = (\<lambda>f fmt prec bitSize.
        if fmt = CHR ''f'' then ''123'' else if f = c64_1e21 then ''1e+21'' else ''1e-09''),
      ParseFloat = (\<lambda>s bitSize.
        if s = ''123'' then Inr f64_123 else Inl (ErrParseFloat s))\<rparr>"

section \<open>String escaping as the specification words it\<close>

text \<open>
  Section 4.4 of the specification, read one byte or one UTF-8 sequence at a time:
  \<open>escape_ascii\<close> is the rule for a byte below \<^verbatim>\<open>0x80\<close>; \<open>spec_escape\<close> goes
  through the text, replaces a byte that starts no well-formed UTF-8 sequence by
  the escape of U+FFFD, escapes U+2028 and U+2029, and copies every other
  sequence.
\<close>

definition escape_ascii :: "bool \<Rightarrow> char \<Rightarrow> string" where
  "escape_ascii htmlSafe b =
     (if b = bslash \<or> b = dquote then [bslash, b]
      else if b = CHR 0x0A then bslash # ''n''
      else if b = CHR 0x0D then bslash # ''r''
      else if b = CHR 0x09 then bslash # ''t''
      else if (of_char b :: nat) < 0x20
              \<or> (htmlSafe \<and> (b = CHR ''<'' \<or> b = CHR ''>'' \<or> b = CHR ''&''))
      then bslash # ''u00'' @ [hex ! (of_char b div 16), hex ! (of_char b mod 16)]
      else [b])"

lemma DecodeRune_drop_less:
  "Suc (length cs) - snd (DecodeRuneInString (c # cs)) < Suc (length cs)"
  using DecodeRuneInString_size [of "c # cs"] by (simp del: DecodeRuneInString.simps)

function spec_escape :: "bool \<Rightarrow> string \<Rightarrow> string" where
  "spec_escape htmlSafe [] = []"
| "spec_escape htmlSafe (c # cs) =
     (if (of_char c :: nat) < 0x80 then escape_ascii htmlSafe c @ spec_escape htmlSafe cs
      else if DecodeRuneInString (c # cs) = (RuneError, 1)
        then bslash # ''ufffd'' @ spec_escape htmlSafe cs
      else if fst (DecodeRuneInString (c # cs)) = 0x2028
        then bslash # ''u2028'' @ spec_escape htmlSafe (drop (snd (DecodeRuneInString (c # cs))) (c # cs))
      else if fst (DecodeRuneInString (c # cs)) = 0x2029
        then bslash # ''u2029'' @ spec_escape htmlSafe (drop (snd (DecodeRuneInString (c # cs))) (c # cs))
      else take (snd (DecodeRuneInString (c # cs))) (c # cs)
           @ spec_escape htmlSafe (drop (snd (DecodeRuneInString (c # cs))) (c # cs)))"
  by pat_completeness auto
termination
  by (relation "measure (\<lambda>(h, s). length s)")
    (simp_all del: DecodeRuneInString.simps drop_Cons' add: DecodeRune_drop_less)

text \<open>
  The same rule without the replacement of malformed bytes: only the listed
  escapes, every other byte copied.
\<close>

fun listed_escape :: "bool \<Rightarrow> string \<Rightarrow> string" where
  "listed_escape htmlSafe [] = []"
| "listed_escape htmlSafe (c # cs) =
     (if (of_char c :: nat) < 0x80 then escape_ascii htmlSafe c @ listed_escape htmlSafe cs
      else if c = CHR 0xE2 \<and> take 2 cs = [CHR 0x80, CHR 0xA8]
        then bslash # ''u2028'' @ listed_escape htmlSafe (drop 2 cs)
      else if c = CHR 0xE2 \<and> take 2 cs = [CHR 0x80, CHR 0xA9]
        then bslash # ''u2029'' @ listed_escape htmlSafe (drop 2 cs)
      else c # listed_escape htmlSafe cs)"

text \<open>
  What the loop of \<^verbatim>\<open>encodeString\<close> has done when it stands at index \<open>i\<close> with the
  bytes from \<open>start\<close> on not yet written: \<open>r\<close> is its result, the sink and the
  final value of \<^verbatim>\<open>start\<close>.
\<close>

definition loop_post :: "string \<Rightarrow> bool \<Rightarrow> nat \<Rightarrow> nat \<Rightarrow> string \<Rightarrow> string \<times> nat \<Rightarrow> bool" where
  "loop_post s h start i w r =
     (snd r \<le> length s \<and>
      fst r @ slice s (snd r) (length s) = w @ slice s start i @ spec_escape h (drop i s))"

section \<open>Values that survive encoding and decoding\<close>

text \<open>
  A text is well-formed UTF-8 when \<^verbatim>\<open>utf8.DecodeRuneInString\<close> finds a proper sequence
  at every step. \<open>dest_of v\<close> is the destination of the shape of \<open>v\<close>: the generic
  slot for nil, a pointer to the type of \<open>v\<close> otherwise.
\<close>

function well_formed_utf8 :: "string \<Rightarrow> bool" where
  "well_formed_utf8 [] = True"
| "well_formed_utf8 (c # cs) =
     (DecodeRuneInString (c # cs) \<noteq> (RuneError, 1)
      \<and> well_formed_utf8 (drop (snd (DecodeRuneInString (c # cs))) (c # cs)))"
  by pat_completeness auto
termination
  by (relation "measure length")
    (simp_all del: drop_Cons' add: DecodeRune_drop_less)

definition dest_of :: "value \<Rightarrow> go_type" where
  "dest_of v = (if v = VNil then TyPtr TyInterface else TyPtr (type_of v))"

text \<open>
  The optional signs that \<open>read_exponent\<close> and \<open>read_number\<close> split off.
\<close>

definition exp_sign :: "string \<Rightarrow> string" where
  "exp_sign s1 = (case s1 of c # _ \<Rightarrow> if c = CHR ''+'' \<or> c = CHR ''-'' then [c] else [] | [] \<Rightarrow> [])"

definition num_sign :: "string \<Rightarrow> string" where
  "num_sign s = (case s of c # _ \<Rightarrow> if c = CHR ''-'' then [c] else [] | [] \<Rightarrow> [])"

text \<open>
  What the round trip of a number needs of \<^verbatim>\<open>strconv\<close>, Go's library, and of nothing
  else. \<open>decimal_shape\<close> is the shape of a text in the format \<^verbatim>\<open>f\<close>: an optional minus
  sign, digits, and possibly a point and digits. \<open>exponent_shape\<close> is the shape of a
  text in the format \<^verbatim>\<open>e\<close>: such a text, then \<^verbatim>\<open>e\<close>, a sign and two digits or more.
  \<open>strconv_reads_back L f\<close>: \<^verbatim>\<open>AppendFloat\<close> writes \<open>f\<close> in these shapes, with the fewest
  digits, and \<^verbatim>\<open>ParseFloat\<close> reads both texts back as \<open>f\<close>.
  \<open>exponent_zero_ignored L\<close>: when \<^verbatim>\<open>ParseFloat\<close> reads a text that ends in \<^verbatim>\<open>e-0\<close>
  and a digit, it reads the same number from the text without that zero.
\<close>

definition decimal_shape :: "string \<Rightarrow> bool" where
  "decimal_shape b =
     (let u = drop (length (num_sign b)) b;
          i = takeWhile is_digit u;
          r = dropWhile is_digit u
      in i \<noteq> [] \<and> (r = [] \<or> (hd r = CHR ''.'' \<and> tl r \<noteq> [] \<and> list_all is_digit (tl r))))"

definition exponent_shape :: "string \<Rightarrow> bool" where
  "exponent_shape b =
     (let m = takeWhile (\<lambda>c. c \<noteq> CHR ''e'') b;
          x = dropWhile (\<lambda>c. c \<noteq> CHR ''e'') b
      in decimal_shape m \<and> 4 \<le> length x \<and> (x ! 1 = CHR ''+'' \<or> x ! 1 = CHR ''-'')
         \<and> list_all is_digit (drop 2 x))"

definition strconv_reads_back :: "strconv \<Rightarrow> float64 \<Rightarrow> bool" where
  "strconv_reads_back L f =
     (decimal_shape (AppendFloat L f (CHR ''f'') (- 1) 64)
      \<and> exponent_shape (AppendFloat L f (CHR ''e'') (- 1) 64)
      \<and> ParseFloat L (AppendFloat L f (CHR ''f'') (- 1) 64) 64 = Inr f
      \<and> ParseFloat L (AppendFloat L f (CHR ''e'') (- 1) 64) 64 = Inr f)"

definition exponent_zero_ignored :: "strconv \<Rightarrow> bool" where
  "exponent_zero_ignored L =
     (\<forall>m c x. is_digit c \<longrightarrow> ParseFloat L (m @ ''e-0'' @ [c]) 64 = Inr x
        \<longrightarrow> ParseFloat L (m @ ''e-'' @ [c]) 64 = Inr x)"

text \<open>
  \<open>roundtrippable\<close> are null, the booleans, the finite \<^verbatim>\<open>float64\<close> numbers that
  \<^verbatim>\<open>strconv\<close> reads back, the strings of well-formed UTF-8, the lists of such values,
  of any length, and the maps of such values whose keys are well-formed UTF-8 and
  distinct, as the keys of a Go map are. The nil list and the nil map are not among
  them, nor is a value of any other type.
\<close>

fun roundtrippable :: "strconv \<Rightarrow> value \<Rightarrow> bool"
  and roundtrippable_elems :: "strconv \<Rightarrow> value list \<Rightarrow> bool"
  and roundtrippable_members :: "strconv \<Rightarrow> (string \<times> value) list \<Rightarrow> bool"
where
  "roundtrippable L VNil = True"
| "roundtrippable L (VBool b) = True"
| "roundtrippable L (VFloat64 f) = (\<not> IsNaN f \<and> \<not> IsInf f \<and> strconv_reads_back L f)"
| "roundtrippable L (VString s) = well_formed_utf8 s"
| "roundtrippable L (VSlice xs) = roundtrippable_elems L xs"
| "roundtrippable L (VMap kvs) = (distinct (map fst kvs) \<and> roundtrippable_members L kvs)"
| "roundtrippable L _ = False"
| "roundtrippable_elems L [] = True"
| "roundtrippable_elems L (x # xs) = (roundtrippable L x \<and> roundtrippable_elems L xs)"
| "roundtrippable_members L [] = True"
| "roundtrippable_members L ((k, el) # kvs) =
     (well_formed_utf8 k \<and> roundtrippable L el \<and> roundtrippable_members L kvs)"

text \<open>
  The rounds that the loops of the decoder take on a value: a list or map takes one
  round for each element or member and one for the closing bracket, and an element
  is decoded with the rounds that are left after the round that reads it.
\<close>

fun fuel_needed :: "value \<Rightarrow> nat"
  and fuel_elems :: "value list \<Rightarrow> nat"
  and fuel_members :: "(string \<times> value) list \<Rightarrow> nat"
where
  "fuel_needed (VSlice xs) = fuel_elems xs"
| "fuel_needed (VMap kvs) = fuel_members kvs"
| "fuel_needed _ = 0"
| "fuel_elems [] = 1"
| "fuel_elems (x # xs) = Suc (max (fuel_needed x) (fuel_elems xs))"
| "fuel_members [] = 1"
| "fuel_members ((k, el) # kvs) = Suc (max (fuel_needed el) (fuel_members kvs))"

text \<open>
  The text that the encoder writes for a value that is \<open>roundtrippable\<close>, with the
  two loops of \<^verbatim>\<open>marshalTo\<close> and their flag \<^verbatim>\<open>first\<close>; the bytes that may follow a
  value in such a text; and what it means that the text of \<open>v\<close>, followed by
  \<open>rest\<close>, is decoded to \<open>v\<close> again, \<open>rest\<close> being left in the source.
\<close>

fun text_of :: "strconv \<Rightarrow> value \<Rightarrow> string"
  and elems_text :: "strconv \<Rightarrow> bool \<Rightarrow> value list \<Rightarrow> string"
  and members_text :: "strconv \<Rightarrow> bool \<Rightarrow> (string \<times> value) list \<Rightarrow> string"
where
  "text_of L VNil = ''null''"
| "text_of L (VBool b) = AppendBool b"
| "text_of L (VFloat64 f) = float_text L 64 f"
| "text_of L (VString s) = dquote # spec_escape False s @ [dquote]"
| "text_of L (VSlice xs) = CHR ''['' # elems_text L True xs @ '']''"
| "text_of L (VMap kvs) = CHR ''{'' # members_text L True kvs @ ''}''"
| "text_of L _ = []"
| "elems_text L first [] = []"
| "elems_text L first (x # xs) =
     (if first then [] else '','') @ text_of L x @ elems_text L False xs"
| "members_text L first [] = []"
| "members_text L first ((k, el) # kvs) =
     (if first then [] else '','') @ dquote # spec_escape False k @ [dquote] @ '':''
       @ text_of L el @ members_text L False kvs"

definition number_end :: "string \<Rightarrow> bool" where
  "number_end rest =
     (case rest of [] \<Rightarrow> True | c # _ \<Rightarrow> c = CHR '','' \<or> c = CHR '']'' \<or> c = CHR ''}'')"

definition decodes :: "strconv \<Rightarrow> nat \<Rightarrow> value \<Rightarrow> string \<Rightarrow> bool" where
  "decodes L fuel v rest =
     (\<exists>tok r1. readToken (text_of L v @ rest) = Inr (tok, r1)
        \<and> newDefaultForToken tok = Inr (dest_of v)
        \<and> unmarshalNext L readToken fuel r1 tok (dest_of v) = Inr (v, rest)
        \<and> deref (dest_of v) v = Inr v)"

text \<open>
  A second stand-in for \<^verbatim>\<open>strconv\<close>, on the two numbers \<^verbatim>\<open>123.0\<close> and \<^verbatim>\<open>1e-9\<close>: the
  texts that Go gives for them in the two formats, and what it reads from these
  texts and from \<^verbatim>\<open>1e-9\<close>.
\<close>

definition strconv_decimal :: strconv where
  "strconv_decimal =
     \<lparr>AppendFloat = (\<lambda>f fmt prec bitSize.
        if f = f64_123 then (if fmt = CHR ''e'' then ''1.23e+02'' else ''123'')
        else (if fmt = CHR ''e'' then ''1e-09'' else ''0.000000001'')),
      ParseFloat = (\<lambda>s bitSize.
        if s = ''123'' \<or> s = ''1.23e+02'' then Inr f64_123
        else if s = ''1e-09'' \<or> s = ''1e-9'' \<or> s = ''0.000000001'' then Inr f64_1em9
        else Inl (ErrParseFloat s))\<rparr>"
section \<open>Properties of the string encoder\<close>

lemma slice_app:
  assumes "start \<le> i" and "i + n \<le> length s"
  shows "slice s start (i + n) = slice s start i @ take n (drop i s)"
proof -
  have a: "i + n - start = (i - start) + n" using assms by simp
  have b: "drop (i - start) (drop start s) = drop i s" using assms by simp
  have "take (i - start + n) (drop start s) = take (i - start) (drop start s) @ take n (drop (i - start) (drop start s))"
    by (rule take_add)
  then show ?thesis by (simp only: slice_def a b)
qed

lemma slice_snoc:
  assumes "start \<le> i" and "i < length s"
  shows "slice s start (Suc i) = slice s start i @ [s ! i]"
proof -
  have "drop i s = s ! i # drop (Suc i) s"
    using assms by (simp add: Cons_nth_drop_Suc)
  then have a: "take 1 (drop i s) = [s ! i]"
    by simp
  have "slice s start (i + 1) = slice s start i @ take 1 (drop i s)"
    by (rule slice_app) (use assms in simp_all)
  then show ?thesis by (simp only: a Suc_eq_plus1)
qed

lemma ge_0x20_not_ctl:
  assumes "(0x20::nat) \<le> of_char b"
  shows "b \<noteq> CHR 0x0A" and "b \<noteq> CHR 0x0D" and "b \<noteq> CHR 0x09"
  using assms by fastforce+

lemma safe_escape_ascii:
  assumes "htmlSafeSet b \<or> (\<not> h \<and> safeSet b)"
  shows "escape_ascii h b = [b]"
proof -
  from assms have s: "safeSet b" and hs: "h \<longrightarrow> htmlSafeSet b"
    by (auto simp: htmlSafeSet_def)
  from s have ge: "(0x20::nat) \<le> of_char b" and q: "b \<noteq> dquote" "b \<noteq> bslash"
    by (simp_all add: safeSet_def)
  from ge have nlt: "\<not> (of_char b :: nat) < 0x20" by simp
  from hs have html: "h \<longrightarrow> b \<noteq> CHR ''<'' \<and> b \<noteq> CHR ''>'' \<and> b \<noteq> CHR ''&''"
    by (simp add: htmlSafeSet_def)
  show ?thesis
    unfolding escape_ascii_def
    using ge_0x20_not_ctl [OF ge] q nlt html by simp
qed

lemma unsafe_escape_ascii:
  assumes "(of_char b :: nat) < 0x80" and "\<not> (htmlSafeSet b \<or> (\<not> h \<and> safeSet b))"
  shows "escape_ascii h b =
     bslash # (if b = bslash \<or> b = dquote then [b]
               else if b = CHR 0x0A then ''n''
               else if b = CHR 0x0D then ''r''
               else if b = CHR 0x09 then ''t''
               else ''u00'' @ [hex ! (of_char b div 16), hex ! (of_char b mod 16)])"
proof -
  have "b = bslash \<or> b = dquote \<or> (of_char b :: nat) < 0x20
        \<or> (h \<and> (b = CHR ''<'' \<or> b = CHR ''>'' \<or> b = CHR ''&''))"
    using assms by (auto simp: htmlSafeSet_def safeSet_def)
  then show ?thesis
    unfolding escape_ascii_def by auto
qed

lemma Write_drop_buffer [simp]: "Write_drop buffer_Write w bs = w @ bs"
  by (simp add: Write_drop_def buffer_Write_def)

lemma slice_same [simp]: "slice s a a = []"
  by (simp add: slice_def)

lemma flush_buffer:
  "(if start < i then Write_drop buffer_Write w (slice s start i) else w) = w @ slice s start i"
  by (simp add: slice_def)

lemma slice_empty: "\<not> start < i \<Longrightarrow> slice s start i = []"
  by (simp add: slice_def)

lemma flush_buffer':
  "(if start < i then w @ slice s start i else w) = w @ slice s start i"
  by (simp add: slice_def)

lemmas loop_conds = if_True if_False not_True_eq_False not_False_eq_True

lemma loop_done:
  assumes "\<not> i < length s"
  shows "encodeString_loop wr s h start i w = (w, start)"
  by (subst encodeString_loop.simps) (simp only: assms loop_conds)

lemma loop_safe:
  assumes "i < length s" and "(of_char (s ! i) :: nat) < 0x80"
    and "htmlSafeSet (s ! i) \<or> (\<not> h \<and> safeSet (s ! i))"
  shows "encodeString_loop wr s h start i w = encodeString_loop wr s h start (i + 1) w"
  by (subst encodeString_loop.simps) (simp only: assms loop_conds)

lemma loop_escape:
  assumes "i < length s" and "(of_char (s ! i) :: nat) < 0x80"
    and "\<not> (htmlSafeSet (s ! i) \<or> (\<not> h \<and> safeSet (s ! i)))"
  shows "encodeString_loop buffer_Write s h start i w
         = encodeString_loop buffer_Write s h (i + 1) (i + 1)
             (w @ slice s start i @ escape_ascii h (s ! i))"
proof -
  have "(let b = s ! i;
             w1 = (if start < i then Write_drop buffer_Write w (slice s start i) else w);
             w2 = Write_drop buffer_Write w1 [bslash]
         in if b = bslash \<or> b = dquote then Write_drop buffer_Write w2 [b]
            else if b = CHR 0x0A then Write_drop buffer_Write w2 ''n''
            else if b = CHR 0x0D then Write_drop buffer_Write w2 ''r''
            else if b = CHR 0x09 then Write_drop buffer_Write w2 ''t''
            else Write_drop buffer_Write (Write_drop buffer_Write
                   (Write_drop buffer_Write w2 ''u00'')
                   [hex ! (of_char b div 16)]) [hex ! (of_char b mod 16)])
        = w @ slice s start i @ escape_ascii h (s ! i)"
    by (simp add: Let_def slice_empty unsafe_escape_ascii [OF assms(2,3)])
  then show ?thesis
    by (subst encodeString_loop.simps) (simp only: assms loop_conds)
qed

lemma loop_invalid:
  assumes "i < length s" and "\<not> (of_char (s ! i) :: nat) < 0x80"
    and "fst (DecodeRuneInString (drop i s)) = RuneError \<and> snd (DecodeRuneInString (drop i s)) = 1"
  shows "encodeString_loop buffer_Write s h start i w
         = encodeString_loop buffer_Write s h (i + 1) (i + 1)
             (w @ slice s start i @ bslash # ''ufffd'')"
  by (subst encodeString_loop.simps)
     (simp only: assms loop_conds flush_buffer' Write_drop_buffer append_assoc simp_thms
        append_Cons append_Nil)

lemma loop_linesep:
  assumes "i < length s" and "\<not> (of_char (s ! i) :: nat) < 0x80"
    and "\<not> (fst (DecodeRuneInString (drop i s)) = RuneError \<and> snd (DecodeRuneInString (drop i s)) = 1)"
    and "fst (DecodeRuneInString (drop i s)) = 0x2028 \<or> fst (DecodeRuneInString (drop i s)) = 0x2029"
  shows "encodeString_loop buffer_Write s h start i w
         = encodeString_loop buffer_Write s h
             (i + snd (DecodeRuneInString (drop i s))) (i + snd (DecodeRuneInString (drop i s)))
             (w @ slice s start i @ bslash # ''u202''
                @ [hex ! (fst (DecodeRuneInString (drop i s)) mod 16)])"
  by (subst encodeString_loop.simps)
     (simp only: assms loop_conds flush_buffer' Write_drop_buffer append_assoc simp_thms
        append_Cons append_Nil)

lemma loop_pass:
  assumes "i < length s" and "\<not> (of_char (s ! i) :: nat) < 0x80"
    and "\<not> (fst (DecodeRuneInString (drop i s)) = RuneError \<and> snd (DecodeRuneInString (drop i s)) = 1)"
    and "\<not> (fst (DecodeRuneInString (drop i s)) = 0x2028 \<or> fst (DecodeRuneInString (drop i s)) = 0x2029)"
  shows "encodeString_loop wr s h start i w
         = encodeString_loop wr s h start (i + snd (DecodeRuneInString (drop i s))) w"
  by (subst encodeString_loop.simps) (simp only: assms loop_conds)

lemma encodeString_loop_buffer:
  assumes "start \<le> i" and "i \<le> length s"
  shows "loop_post s h start i w (encodeString_loop buffer_Write s h start i w)"
  using assms
proof (induction "length s - i" arbitrary: start i w rule: less_induct)
  case less
  note IH = less.hyps and prems = less.prems
  show ?case
  proof (cases "i < length s")
    case False
    moreover from False prems have "i = length s" by simp
    ultimately show ?thesis
      using prems by (simp add: loop_done loop_post_def)
  next
    case inb: True
    then have dr: "drop i s = s ! i # drop (Suc i) s"
      by (simp add: Cons_nth_drop_Suc)
    let ?d = "DecodeRuneInString (drop i s)"
    have sz: "1 \<le> snd ?d" "i + snd ?d \<le> length s"
      using DecodeRuneInString_size [of "drop i s"] inb by auto
    have dd: "drop (snd ?d) (s ! i # drop (Suc i) s) = drop (i + snd ?d) s"
      by (simp only: dr [symmetric] drop_drop add.commute)
    have next1: "length s - (i + 1) < length s - i" "i + 1 \<le> length s"
      using inb by simp_all
    have nextn: "length s - (i + snd ?d) < length s - i"
      using inb sz by simp
    show ?thesis
    proof (cases "(of_char (s ! i) :: nat) < 0x80")
      case ascii: True
      show ?thesis
      proof (cases "htmlSafeSet (s ! i) \<or> (\<not> h \<and> safeSet (s ! i))")
        case True
        have "loop_post s h start (i + 1) w (encodeString_loop buffer_Write s h start (i + 1) w)"
          using IH [OF next1(1) _ next1(2)] prems by simp
        then show ?thesis
          using slice_snoc [OF prems(1) inb] safe_escape_ascii [OF True]
          by (simp add: loop_safe [OF inb ascii True] loop_post_def dr ascii)
      next
        case False
        have "loop_post s h (i + 1) (i + 1) (w @ slice s start i @ escape_ascii h (s ! i))
                (encodeString_loop buffer_Write s h (i + 1) (i + 1)
                   (w @ slice s start i @ escape_ascii h (s ! i)))"
          using IH [OF next1(1) _ next1(2)] by simp
        then show ?thesis
          by (simp add: loop_escape [OF inb ascii False] loop_post_def dr ascii)
      qed
    next
      case nonascii: False
      show ?thesis
      proof (cases "fst ?d = RuneError \<and> snd ?d = 1")
        case True
        then have d1: "DecodeRuneInString (s ! i # drop (Suc i) s) = (RuneError, 1)"
          by (simp add: dr [symmetric] prod_eq_iff)
        have "loop_post s h (i + 1) (i + 1) (w @ slice s start i @ bslash # ''ufffd'')
                (encodeString_loop buffer_Write s h (i + 1) (i + 1)
                   (w @ slice s start i @ bslash # ''ufffd''))"
          using IH [OF next1(1) _ next1(2)] by simp
        then show ?thesis
          by (simp add: loop_invalid [OF inb nonascii True] loop_post_def dr nonascii d1)
      next
        case valid: False
        then have d1: "DecodeRuneInString (s ! i # drop (Suc i) s) \<noteq> (RuneError, Suc 0)"
          by (simp add: dr [symmetric] prod_eq_iff)
        show ?thesis
        proof (cases "fst ?d = 0x2028 \<or> fst ?d = 0x2029")
          case True
          let ?w = "w @ slice s start i @ bslash # ''u202'' @ [hex ! (fst ?d mod 16)]"
          have "loop_post s h (i + snd ?d) (i + snd ?d) ?w
                  (encodeString_loop buffer_Write s h (i + snd ?d) (i + snd ?d) ?w)"
            using IH [OF nextn _ sz(2)] by simp
          moreover have "hex ! (0x2028 mod 16) = CHR ''8''" "hex ! (0x2029 mod 16) = CHR ''9''"
            by (simp_all add: hex_def)
          ultimately show ?thesis
            using True dd
            by (auto simp add: loop_linesep [OF inb nonascii valid True] loop_post_def
                  dr nonascii d1 simp del: drop_Cons')
        next
          case False
          have "loop_post s h start (i + snd ?d) w
                  (encodeString_loop buffer_Write s h start (i + snd ?d) w)"
            using IH [OF nextn _ sz(2)] prems sz by simp
          then show ?thesis
            using False dd slice_app [OF prems(1) sz(2)]
            by (simp add: loop_pass [OF inb nonascii valid False] loop_post_def
                  dr nonascii d1 del: drop_Cons')
        qed
      qed
    qed
  qed
qed


lemma encodeString_buffer:
  "encodeString buffer_Write b s h = (b @ dquote # spec_escape h s @ [dquote], None)"
proof -
  obtain w1 start where r: "encodeString_loop buffer_Write s h 0 0 (b @ [dquote]) = (w1, start)"
    by (cases "encodeString_loop buffer_Write s h 0 0 (b @ [dquote])")
  have "loop_post s h 0 0 (b @ [dquote]) (w1, start)"
    using encodeString_loop_buffer [of 0 0 s h "b @ [dquote]"] r by simp
  then have "w1 @ slice s start (length s) = b @ dquote # spec_escape h s"
    by (simp add: loop_post_def)
  then show ?thesis
    by (cases "start < length s") (simp_all add: encodeString_def r slice_empty buffer_Write_def)
qed




section \<open>Properties of the number formatter\<close>

lemma f64_fields_pack:
  assumes "e < 2 ^ 11" and "frac < 2 ^ 52"
  shows "f64_exp (f64_pack neg e frac) = e" and "f64_frac (f64_pack neg e frac) = frac"
proof -
  let ?X = "(if neg then 2 ^ 63 else 0) + e * 2 ^ 52 + frac :: nat"
  have "e * 2 ^ 52 \<le> (2 ^ 11 - 1) * 2 ^ 52"
    using assms(1) by simp
  then have lt: "?X < 2 ^ 64"
    using assms(2) by (simp split: if_splits)
  have u: "unat (f64_pack neg e frac) = ?X"
  proof -
    have "unat (word_of_nat ?X :: 64 word) = ?X mod 2 ^ LENGTH(64)"
      by (rule unat_of_nat)
    also have "\<dots> = ?X" using lt by simp
    finally show ?thesis by (simp only: f64_pack_def)
  qed
  define k where "k = (if neg then 2 ^ 11 else 0) + e"
  have s: "?X = k * 2 ^ 52 + frac"
    by (simp add: k_def algebra_simps)
  have d: "?X div 2 ^ 52 = k" and m: "?X mod 2 ^ 52 = frac"
    unfolding s using assms(2) by simp_all
  have "k mod 2 ^ 11 = e"
    using assms(1) by (simp add: k_def)
  then show "f64_exp (f64_pack neg e frac) = e"
    by (simp only: f64_exp_def u d)
  show "f64_frac (f64_pack neg e frac) = frac"
    by (simp only: f64_frac_def u m)
qed

lemma f32_fields:
  "f32_exp v < 2 ^ 8" "f32_frac v < 2 ^ 23"
  by (simp_all add: f32_exp_def f32_frac_def)

lemma float64_of_float32_special:
  assumes "f32_exp v = 0xFF"
  shows "IsNaN (float64_of_float32 v) \<or> IsInf (float64_of_float32 v)"
proof -
  let ?m = "f32_frac v"
  have "(if ?m = 0 \<or> ?m \<ge> 2 ^ 22 then ?m * 2 ^ 29 else 2 ^ 51 + ?m * 2 ^ 29) < (2 ^ 52 :: nat)"
    using f32_fields(2) [of v] by simp
  then have "f64_exp (float64_of_float32 v) = 0x7FF"
    using assms f64_fields_pack(1) [of "0x7FF"] by (simp add: float64_of_float32_def Let_def)
  then show ?thesis
    by (auto simp: IsNaN_def IsInf_def)
qed

lemma unat_Abs: "unat (Abs v) = unat v mod 2 ^ 63"
proof -
  have "unat (word_of_nat (unat v mod 2 ^ 63) :: 64 word) = (unat v mod 2 ^ 63) mod 2 ^ LENGTH(64)"
    by (rule unat_of_nat)
  also have "\<dots> = unat v mod 2 ^ 63"
    by simp
  finally show ?thesis by (simp only: Abs_def)
qed

lemma Abs_fields:
  "f64_exp (Abs v) = f64_exp v" "f64_frac (Abs v) = f64_frac v" "\<not> f64_neg (Abs v)"
proof -
  let ?x = "unat v"
  have "?x mod 2 ^ 63 = ?x mod (2 ^ 52 * 2 ^ 11)" by simp
  also have "\<dots> = 2 ^ 52 * (?x div 2 ^ 52 mod 2 ^ 11) + ?x mod 2 ^ 52"
    by (rule mod_mult2_eq)
  finally have m: "?x mod 2 ^ 63 = (?x div 2 ^ 52 mod 2 ^ 11) * 2 ^ 52 + ?x mod 2 ^ 52"
    by (simp only: mult.commute)
  define k where "k = ?x div 2 ^ 52 mod 2 ^ 11"
  define l where "l = ?x mod 2 ^ 52"
  have l: "l < 2 ^ 52" by (simp add: l_def)
  have k: "k < 2 ^ 11" by (simp add: k_def)
  have m': "?x mod 2 ^ 63 = k * 2 ^ 52 + l"
    using m by (simp only: k_def l_def)
  have d: "(k * 2 ^ 52 + l) div 2 ^ 52 = k" using l by simp
  have kk: "k mod 2 ^ 11 = k" using k by simp
  have "f64_exp (Abs v) = (k * 2 ^ 52 + l) div 2 ^ 52 mod 2 ^ 11"
    by (simp only: f64_exp_def unat_Abs m')
  also have "\<dots> = k" by (simp only: d kk)
  also have "\<dots> = f64_exp v" by (simp only: f64_exp_def k_def mod_mod_trivial)
  finally show "f64_exp (Abs v) = f64_exp v" .
  have r: "(k * 2 ^ 52 + l) mod 2 ^ 52 = l" using l by simp
  have "f64_frac (Abs v) = (k * 2 ^ 52 + l) mod 2 ^ 52"
    by (simp only: f64_frac_def unat_Abs m')
  also have "\<dots> = l" by (rule r)
  also have "\<dots> = f64_frac v" by (simp only: l_def f64_frac_def)
  finally show "f64_frac (Abs v) = f64_frac v" .
  show "\<not> f64_neg (Abs v)"
    by (simp add: f64_neg_def unat_Abs not_le)
qed

lemma Abs_NaN: "IsNaN (Abs v) = IsNaN v"
  by (simp add: IsNaN_def Abs_fields)

lemma f64_scaled_Abs: "f64_scaled (Abs v) = \<bar>f64_scaled v\<bar>"
  by (simp add: f64_scaled_def Abs_fields abs_mult)

lemma f64_scaled_zero: "f64_scaled 0 = 0" "\<not> IsNaN 0"
  by (simp_all add: f64_scaled_def f64_exp_def f64_frac_def IsNaN_def)

lemma f64_scaled_c64_1e21: "f64_scaled c64_1e21 = 10 ^ 21 * 2 ^ 1074"
  by (simp add: f64_scaled_def c64_1e21_def f64_exp_def f64_frac_def f64_neg_def)

lemma not_NaN_consts: "\<not> IsNaN c64_1e21" "\<not> IsNaN c64_1em6"
  by (simp_all add: IsNaN_def c64_1e21_def c64_1em6_def f64_exp_def)

lemma float_fmt_64:
  assumes "\<not> IsNaN v"
  shows "float_fmt 64 v = CHR ''f'' \<longleftrightarrow>
           f64_scaled (Abs v) = 0
           \<or> (f64_scaled c64_1em6 \<le> f64_scaled (Abs v) \<and> f64_scaled (Abs v) < 10 ^ 21 * 2 ^ 1074)"
  using assms
  by (auto simp: float_fmt_def Let_def f64_ne_def f64_lt_def f64_ge_def Abs_NaN f64_scaled_zero
        not_NaN_consts f64_scaled_c64_1e21)

lemma clean_exponent_strip:
  "clean_exponent (d @ ''e-0'' @ [c]) = d @ ''e-'' @ [c]"
  by (simp add: clean_exponent_def Let_def nth_append list_update_append)

lemma clean_exponent_two_digits:
  "sg \<noteq> CHR ''-'' \<or> x \<noteq> CHR ''0'' \<Longrightarrow>
   clean_exponent (d @ [e, sg, x, y]) = d @ [e, sg, x, y]"
  by (auto simp: clean_exponent_def Let_def nth_append)

lemma clean_exponent_three_digits:
  "s \<noteq> CHR ''e'' \<Longrightarrow> clean_exponent (d @ [s, x, y, z]) = d @ [s, x, y, z]"
  by (auto simp: clean_exponent_def Let_def nth_append)


lemma f32_fields_pack:
  assumes "e < 2 ^ 8" and "frac < 2 ^ 23"
  shows "f32_exp (f32_pack neg e frac) = e" and "f32_frac (f32_pack neg e frac) = frac"
proof -
  let ?X = "(if neg then 2 ^ 31 else 0) + e * 2 ^ 23 + frac :: nat"
  have "e * 2 ^ 23 \<le> (2 ^ 8 - 1) * 2 ^ 23"
    using assms(1) by simp
  then have lt: "?X < 2 ^ 32"
    using assms(2) by (simp split: if_splits)
  have u: "unat (f32_pack neg e frac) = ?X"
  proof -
    have "unat (word_of_nat ?X :: 32 word) = ?X mod 2 ^ LENGTH(32)"
      by (rule unat_of_nat)
    also have "\<dots> = ?X" using lt by simp
    finally show ?thesis by (simp only: f32_pack_def)
  qed
  define k where "k = (if neg then 2 ^ 8 else 0) + e"
  have s: "?X = k * 2 ^ 23 + frac"
    by (simp add: k_def algebra_simps)
  have d: "?X div 2 ^ 23 = k" and m: "?X mod 2 ^ 23 = frac"
    unfolding s using assms(2) by simp_all
  have "k mod 2 ^ 8 = e"
    using assms(1) by (simp add: k_def)
  then show "f32_exp (f32_pack neg e frac) = e"
    by (simp only: f32_exp_def u d)
  show "f32_frac (f32_pack neg e frac) = frac"
    by (simp only: f32_frac_def u m)
qed

lemma f32_pack_NaN:
  assumes "e < 256" and "frac < 8388608"
  shows "f32_IsNaN (f32_pack neg e frac) = (e = 255 \<and> frac \<noteq> 0)"
proof -
  have "e < 2 ^ 8" and "frac < 2 ^ 23" using assms by simp_all
  from f32_fields_pack [OF this, of neg] show ?thesis
    by (simp add: f32_IsNaN_def)
qed

lemma round_shift_le: "round_shift M sh \<le> M div 2 ^ sh + 1"
  by (simp add: round_shift_def Let_def)

lemma round_shift_bound:
  assumes "M < 2 ^ 53" and "n + sh \<ge> 53"
  shows "round_shift M sh \<le> 2 ^ n"
proof -
  have "M < 2 ^ (n + sh)"
    using assms by (meson less_le_trans one_le_numeral power_increasing)
  then have "M < 2 ^ n * 2 ^ sh" by (simp add: power_add)
  then have "M div 2 ^ sh < 2 ^ n"
    by (simp add: less_mult_imp_div_less)
  then show ?thesis using round_shift_le [of M sh] by simp
qed

lemma f64_frac_bound: "f64_frac x < 2 ^ 52"
  by (simp add: f64_frac_def)

lemma float32_of_float64_not_NaN:
  assumes "\<not> IsNaN x"
  shows "\<not> f32_IsNaN (float32_of_float64 x)"
proof -
  let ?e = "f64_exp x" and ?m = "f64_frac x"
  have M: "2 ^ 52 + ?m < 2 ^ 53" using f64_frac_bound [of x] by simp
  consider (a) "?e = 0x7FF" | (b) "?e = 0" | (c) "?e \<noteq> 0x7FF" "897 \<le> ?e" | (d) "?e \<noteq> 0" "?e < 897"
    by linarith
  then show ?thesis
  proof cases
    case a
    with assms have "?m = 0" by (simp add: IsNaN_def)
    with a show ?thesis
      by (simp add: float32_of_float64_def f32_pack_NaN)
  next
    case b
    then show ?thesis by (simp add: float32_of_float64_def f32_pack_NaN)
  next
    case c
    let ?mant = "round_shift (2 ^ 52 + ?m) 29"
    have "?mant \<le> 2 ^ 24" using round_shift_bound [OF M, of 24 29] by simp
    then have "?mant \<noteq> 2 ^ 24 \<Longrightarrow> ?mant - 2 ^ 23 < 2 ^ 23" by simp
    with c show ?thesis
      by (auto simp: float32_of_float64_def Let_def f32_pack_NaN)
  next
    case d
    let ?mant = "round_shift (2 ^ 52 + ?m) (926 - ?e)"
    have "?mant \<le> 2 ^ 23" using round_shift_bound [OF M, of 23 "926 - ?e"] d by simp
    then have "?mant - 2 ^ 23 = 0" "\<not> ?mant \<ge> 2 ^ 23 \<Longrightarrow> ?mant < 2 ^ 23" by simp_all
    with d show ?thesis
      by (auto simp: float32_of_float64_def Let_def f32_pack_NaN)
  qed
qed

lemma not_NaN_consts32: "\<not> f32_IsNaN c32_1e21" "\<not> f32_IsNaN c32_1em6"
  by (simp_all add: f32_IsNaN_def c32_1e21_def c32_1em6_def f32_exp_def)

lemma float_fmt_32:
  assumes "\<not> IsNaN v"
  shows "float_fmt 32 v = CHR ''f'' \<longleftrightarrow>
           f64_scaled (Abs v) = 0
           \<or> (f32_scaled c32_1em6 \<le> f32_scaled (float32_of_float64 (Abs v))
               \<and> f32_scaled (float32_of_float64 (Abs v)) < f32_scaled c32_1e21)"
  using assms float32_of_float64_not_NaN [of "Abs v"]
  by (auto simp: float_fmt_def Let_def f64_ne_def f32_lt_def f32_ge_def Abs_NaN f64_scaled_zero
        not_NaN_consts32)


lemma fmt_examples:
  "float_fmt 64 c64_1e21 = CHR ''e''" "float_fmt 64 f64_1em9 = CHR ''e''"
  "float_fmt 64 f64_123 = CHR ''f''" "float_fmt 64 0 = CHR ''f''"
  by (simp_all add: float_fmt_def Let_def f64_ne_def f64_lt_def f64_ge_def IsNaN_def
        f64_scaled_def f64_exp_def f64_frac_def f64_neg_def Abs_def
        c64_1e21_def c64_1em6_def f64_1em9_def f64_123_def)


lemma examples_finite:
  "\<not> IsNaN f64_123" "\<not> IsInf f64_123" "\<not> IsNaN c64_1e21" "\<not> IsInf c64_1e21"
  "\<not> IsNaN f64_1em9" "\<not> IsInf f64_1em9" "\<not> IsNaN 0" "\<not> IsInf 0"
  by (simp_all add: IsNaN_def IsInf_def f64_exp_def f64_123_def c64_1e21_def f64_1em9_def)

section \<open>Properties of the value encoder\<close>

lemma AppendUint_nonempty: "AppendUint n \<noteq> []"
  by (subst AppendUint.simps) simp

lemma AppendInt_nonempty: "AppendInt i \<noteq> []"
  by (simp add: AppendInt_def AppendUint_nonempty)

lemma write_bb_buffer: "bb \<noteq> [] \<Longrightarrow> write_bb buffer_Write w bb = (w @ bb, None)"
  by (simp add: write_bb_def buffer_Write_def)


section \<open>Properties of the decoder: reading back what the encoder wrote\<close>


lemma lt16_cases:
  "(k::nat) < 16 \<longleftrightarrow> k = 0 \<or> k = 1 \<or> k = 2 \<or> k = 3 \<or> k = 4 \<or> k = 5 \<or> k = 6 \<or> k = 7
     \<or> k = 8 \<or> k = 9 \<or> k = 10 \<or> k = 11 \<or> k = 12 \<or> k = 13 \<or> k = 14 \<or> k = 15"
  by arith

lemma hexval_hex: "k < 16 \<Longrightarrow> hexval (hex ! k) = Some k"
  unfolding lt16_cases by (auto simp: hexval_def hex_def)

lemma hex4_control:
  assumes "(of_char c :: nat) < 0x20"
  shows "hex4 (CHR ''0'') (CHR ''0'') (hex ! (of_char c div 16)) (hex ! (of_char c mod 16))
         = Some (of_char c)"
proof -
  have a: "(of_char c :: nat) div 16 < 16" using assms by simp
  have b: "(of_char c :: nat) mod 16 < 16" by simp
  have z: "hexval (CHR ''0'') = Some 0" by (simp add: hexval_def)
  show ?thesis
    by (simp add: hex4_def z hexval_hex [OF a] hexval_hex [OF b])
qed

lemma EncodeRune_ascii: "(of_char c :: nat) < 0x80 \<Longrightarrow> EncodeRune (of_char c) = [c]"
  by (simp add: EncodeRune_def)

lemma read_string_escape_ascii:
  assumes "(of_char c :: nat) < 0x80"
  shows "read_string acc (escape_ascii False c @ rest) = read_string (acc @ [c]) rest"
proof -
  consider (q) "c = bslash \<or> c = dquote"
    | (n) "c = CHR 0x0A" | (r) "c = CHR 0x0D" | (t) "c = CHR 0x09"
    | (u) "c \<noteq> bslash" "c \<noteq> dquote" "c \<noteq> CHR 0x0A" "c \<noteq> CHR 0x0D" "c \<noteq> CHR 0x09"
          "(of_char c :: nat) < 0x20"
    | (p) "c \<noteq> bslash" "c \<noteq> dquote" "c \<noteq> CHR 0x0A" "c \<noteq> CHR 0x0D" "c \<noteq> CHR 0x09"
          "\<not> (of_char c :: nat) < 0x20"
    by blast
  then show ?thesis
  proof cases
    case q
    then show ?thesis by (auto simp: escape_ascii_def short_escape_def)
  next
    case n
    then show ?thesis by (simp add: escape_ascii_def short_escape_def)
  next
    case r
    then show ?thesis by (simp add: escape_ascii_def short_escape_def)
  next
    case t
    then show ?thesis by (simp add: escape_ascii_def short_escape_def)
  next
    case u
    then show ?thesis
      using hex4_control [OF u(6)] EncodeRune_ascii [OF assms]
      by (simp add: escape_ascii_def)
  next
    case p
    then show ?thesis by (simp add: escape_ascii_def)
  qed
qed


lemma DecodeRune_cases:
  assumes "\<not> (of_char c :: nat) < 0x80" and "DecodeRuneInString (c # cs) \<noteq> (RuneError, 1)"
  obtains
    (two) c1 rest where "cs = c1 # rest" "0xC2 \<le> (of_char c :: nat)" "(of_char c :: nat) \<le> 0xDF"
      "in_range c1 0x80 0xBF"
      "DecodeRuneInString (c # cs) = ((of_char c mod 32) * 64 + of_char c1 mod 64, 2)"
  | (three) c1 c2 rest where "cs = c1 # c2 # rest" "0xE0 \<le> (of_char c :: nat)"
      "(of_char c :: nat) \<le> 0xEF"
      "in_range c1 (accept_lo (of_char c)) (accept_hi (of_char c))" "in_range c2 0x80 0xBF"
      "DecodeRuneInString (c # cs)
       = ((of_char c mod 16) * 4096 + (of_char c1 mod 64) * 64 + of_char c2 mod 64, 3)"
  | (four) c1 c2 c3 rest where "cs = c1 # c2 # c3 # rest" "0xF0 \<le> (of_char c :: nat)"
      "(of_char c :: nat) \<le> 0xF4"
      "in_range c1 (accept_lo (of_char c)) (accept_hi (of_char c))" "in_range c2 0x80 0xBF"
      "in_range c3 0x80 0xBF"
      "DecodeRuneInString (c # cs)
       = ((of_char c mod 8) * 262144 + (of_char c1 mod 64) * 4096
          + (of_char c2 mod 64) * 64 + of_char c3 mod 64, 4)"
  using assms
  by (auto simp: DecodeRuneInString.simps Let_def split: if_splits list.splits)

lemma accept_bounds: "0x80 \<le> accept_lo b" "accept_hi b \<le> 0xBF"
  by (simp_all add: accept_lo_def accept_hi_def)

lemma in_range_high: "in_range b lo hi \<Longrightarrow> 0x80 \<le> lo \<Longrightarrow> \<not> (of_char b :: nat) < 0x80"
  by (simp add: in_range_def)

lemma high_not_special: "\<not> (of_char b :: nat) < 0x80 \<Longrightarrow> b \<noteq> dquote \<and> b \<noteq> bslash"
  by auto

lemma read_string_copy:
  "\<forall>b \<in> set bs. b \<noteq> dquote \<and> b \<noteq> bslash \<Longrightarrow>
   read_string acc (bs @ rest) = read_string (acc @ bs) rest"
  by (induction bs arbitrary: acc) simp_all

lemma DecodeRune_high_bytes:
  assumes "\<not> (of_char c :: nat) < 0x80" and "DecodeRuneInString (c # cs) \<noteq> (RuneError, 1)"
  shows "\<forall>b \<in> set (take (snd (DecodeRuneInString (c # cs))) (c # cs)). b \<noteq> dquote \<and> b \<noteq> bslash"
  using assms
proof (cases rule: DecodeRune_cases)
  case (two c1 rest)
  then show ?thesis
    using assms(1) in_range_high [of c1 "0x80" "0xBF"] by (auto dest!: high_not_special)
next
  case (three c1 c2 rest)
  then show ?thesis
    using assms(1) in_range_high [of c1 "accept_lo (of_char c)" "accept_hi (of_char c)"]
      in_range_high [of c2 "0x80" "0xBF"] accept_bounds(1) [of "of_char c"]
    by (auto dest!: high_not_special)
next
  case (four c1 c2 c3 rest)
  then show ?thesis
    using assms(1) in_range_high [of c1 "accept_lo (of_char c)" "accept_hi (of_char c)"]
      in_range_high [of c2 "0x80" "0xBF"] in_range_high [of c3 "0x80" "0xBF"]
      accept_bounds(1) [of "of_char c"]
    by (auto dest!: high_not_special)
qed


lemma char_eqI: "(of_char c :: nat) = of_char d \<Longrightarrow> c = d"
  by (metis char_of_char)

lemma char_of_byte: "(of_char c :: nat) = n \<Longrightarrow> c = char_of n"
  by (metis char_of_char)

lemma char_of_linesep:
  "char_of (226 :: nat) = CHR 0xE2" "char_of (128 :: nat) = CHR 0x80"
  "char_of (168 :: nat) = CHR 0xA8" "char_of (169 :: nat) = CHR 0xA9"
  by (rule char_eqI, simp)+

lemma mod_pin:
  fixes b :: nat
  assumes "lo \<le> b" and "b < lo + m" and "m dvd lo" and "b mod m = x"
  shows "b = lo + x"
proof -
  obtain q where q: "lo = m * q" using assms(3) by (auto elim: dvdE)
  define d where "d = b - lo"
  have b: "b = m * q + d" using assms(1) q by (simp add: d_def)
  have "d < m" using assms(1,2) by (simp add: d_def)
  then have "b mod m = d" unfolding b by simp
  then show ?thesis using assms(4) b q by simp
qed

lemma three_solve:
  fixes x y z k :: nat
  assumes "x * 4096 + y * 64 + z = 0x2028 + k" and "k < 2" and "y < 64" and "z < 64"
  shows "x = 2 \<and> y = 0 \<and> z = 40 + k"
proof -
  have "x = 2" using assms by linarith
  moreover from this assms have "y = 0" by linarith
  ultimately show ?thesis using assms by linarith
qed


lemma DecodeRune_linesep:
  assumes "\<not> (of_char c :: nat) < 0x80" and "DecodeRuneInString (c # cs) \<noteq> (RuneError, 1)"
    and "fst (DecodeRuneInString (c # cs)) = 0x2028 + k" and "k < 2"
  shows "take (snd (DecodeRuneInString (c # cs))) (c # cs)
         = [CHR 0xE2, CHR 0x80, char_of (0xA8 + k)]"
  using assms(1,2)
proof (cases rule: DecodeRune_cases)
  case (two c1 rest)
  have "(of_char c mod 32) * 64 + of_char c1 mod 64 < (0x2028 :: nat)"
    by (rule less_le_trans [of _ "31 * 64 + 64"]) (simp_all add: add_le_less_mono)
  with two assms(3) show ?thesis by simp
next
  case (three c1 c2 rest)
  define b0 b1 b2 :: nat where "b0 = of_char c" and "b1 = of_char c1" and "b2 = of_char c2"
  have r: "(b0 mod 16) * 4096 + (b1 mod 64) * 64 + b2 mod 64 = 0x2028 + k"
    using three(6) assms(3) by (simp add: b0_def b1_def b2_def)
  have s: "b0 mod 16 = 2 \<and> b1 mod 64 = 0 \<and> b2 mod 64 = 40 + k"
    by (rule three_solve [OF r assms(4)]) simp_all
  have bounds: "0xE0 \<le> b0" "b0 < 0xE0 + 16" "0x80 \<le> b1" "b1 < 0x80 + 64"
      "0x80 \<le> b2" "b2 < 0x80 + 64"
    using three(2-5) accept_bounds [of "of_char c"]
    by (simp_all add: in_range_def b0_def b1_def b2_def)
  have "b0 = 0xE0 + 2" by (rule mod_pin [OF bounds(1,2)]) (use s in simp_all)
  moreover have "b1 = 0x80 + 0" by (rule mod_pin [OF bounds(3,4)]) (use s in simp_all)
  moreover have "b2 = 0x80 + (40 + k)" by (rule mod_pin [OF bounds(5,6)]) (use s in simp_all)
  ultimately have "c = char_of (0xE2 :: nat)" "c1 = char_of (0x80 :: nat)"
      "c2 = char_of (0xA8 + k)"
    by (simp_all add: b0_def b1_def b2_def char_of_byte)
  with three show ?thesis by (simp add: char_of_linesep)
next
  case (four c1 c2 c3 rest)
  define b0 b1 :: nat where "b0 = of_char c" and "b1 = of_char c1"
  define t where "t = (of_char c2 mod 64) * 64 + (of_char c3 mod 64 :: nat)"
  have r: "(b0 mod 8) * 262144 + (b1 mod 64) * 4096 + t = 0x2028 + k"
    using four(7) assms(3) by (simp add: b0_def b1_def t_def)
  have bounds: "0xF0 \<le> b0" "b0 < 0xF0 + 8" "accept_lo b0 \<le> b1" "b1 < 0x80 + 64"
    using four(2-4) accept_bounds [of "of_char c"]
    by (simp_all add: in_range_def b0_def b1_def)
  have z: "b0 mod 8 = 0 \<and> b1 mod 64 < 16"
    using r assms(4) by linarith
  have "b0 = 0xF0 + 0" by (rule mod_pin [OF bounds(1,2)]) (use z in simp_all)
  then have "0x80 + 16 \<le> b1" using bounds(3) by (simp add: accept_lo_def)
  then have "0x80 \<le> b1" by simp
  from mod_pin [OF this bounds(4) _ refl] have "b1 = 0x80 + b1 mod 64" by simp
  with \<open>0x80 + 16 \<le> b1\<close> z show ?thesis by linarith
qed

lemma read_string_linesep:
  "read_string acc (bslash # ''u2028'' @ rest) = read_string (acc @ [CHR 0xE2, CHR 0x80, CHR 0xA8]) rest"
  "read_string acc (bslash # ''u2029'' @ rest) = read_string (acc @ [CHR 0xE2, CHR 0x80, CHR 0xA9]) rest"
  by (simp_all add: hex4_def hexval_def EncodeRune_def char_of_linesep)


lemma DecodeRune_ascii:
  "(of_char c :: nat) < 0x80 \<Longrightarrow> DecodeRuneInString (c # cs) = (of_char c, 1)"
  by (simp add: DecodeRuneInString.simps)

lemma read_string_spec_escape:
  assumes "well_formed_utf8 s"
  shows "read_string acc (spec_escape False s @ dquote # rest) = Inr (acc @ s, rest)"
  using assms
proof (induction "length s" arbitrary: s acc rule: less_induct)
  case less
  show ?case
  proof (cases s)
    case Nil
    then show ?thesis by simp
  next
    case (Cons c cs)
    let ?d = "DecodeRuneInString (c # cs)"
    have ok: "?d \<noteq> (RuneError, 1)" and wf: "well_formed_utf8 (drop (snd ?d) (c # cs))"
      using less.prems Cons by simp_all
    have shorter: "length (drop (snd ?d) (c # cs)) < length s"
      using DecodeRune_drop_less [of cs c] Cons by simp
    note IH = less.hyps [OF shorter wf]
    have split: "take (snd ?d) (c # cs) @ drop (snd ?d) (c # cs) = s"
      using Cons by simp
    show ?thesis
    proof (cases "(of_char c :: nat) < 0x80")
      case True
      then have "drop (snd ?d) (c # cs) = cs"
        by (simp add: DecodeRune_ascii)
      with IH [of "acc @ [c]"] True show ?thesis
        by (simp add: Cons read_string_escape_ascii)
    next
      case False
      show ?thesis
      proof (cases "fst ?d = 0x2028 \<or> fst ?d = 0x2029")
        case True
        then consider (ls) "fst ?d = 0x2028" | (ps) "fst ?d = 0x2029" "fst ?d \<noteq> 0x2028"
          by blast
        then show ?thesis
        proof cases
          case ls
          then have tk: "take (snd ?d) (c # cs) = [CHR 0xE2, CHR 0x80, CHR 0xA8]"
            using DecodeRune_linesep [OF False ok, of 0] by (simp add: char_of_linesep)
          have "read_string acc (bslash # ''u2028'' @ spec_escape False (drop (snd ?d) (c # cs))
                  @ dquote # rest)
                = Inr (acc @ take (snd ?d) (c # cs) @ drop (snd ?d) (c # cs), rest)"
            using IH [of "acc @ [CHR 0xE2, CHR 0x80, CHR 0xA8]"]
            by (simp only: read_string_linesep(1) tk append_assoc)
          then show ?thesis
            using False ok ls
            by (simp add: Cons)
        next
          case ps
          then have tk: "take (snd ?d) (c # cs) = [CHR 0xE2, CHR 0x80, CHR 0xA9]"
            using DecodeRune_linesep [OF False ok, of 1] by (simp add: char_of_linesep)
          have "read_string acc (bslash # ''u2029'' @ spec_escape False (drop (snd ?d) (c # cs))
                  @ dquote # rest)
                = Inr (acc @ take (snd ?d) (c # cs) @ drop (snd ?d) (c # cs), rest)"
            using IH [of "acc @ [CHR 0xE2, CHR 0x80, CHR 0xA9]"]
            by (simp only: read_string_linesep(2) tk append_assoc)
          then show ?thesis
            using False ok ps
            by (simp add: Cons)
        qed
      next
        case pass: False
        have "read_string acc (take (snd ?d) (c # cs) @ spec_escape False (drop (snd ?d) (c # cs))
                @ dquote # rest)
              = Inr (acc @ take (snd ?d) (c # cs) @ drop (snd ?d) (c # cs), rest)"
          using read_string_copy [OF DecodeRune_high_bytes [OF False ok]] IH
          by simp
        then show ?thesis
          using False ok pass by (simp add: Cons)
      qed
    qed
  qed
qed

section \<open>Numerals of the formatter, read by the tokenizer\<close>

lemma digits_append:
  "\<not> is_digit b \<Longrightarrow> digits (a @ b # rest) = (fst (digits a), snd (digits a) @ b # rest)"
  by (induction a) (simp_all add: digits_def)

lemma digits_all:
  "list_all is_digit ds \<Longrightarrow> rest = [] \<or> \<not> is_digit (hd rest) \<Longrightarrow>
     digits (ds @ rest) = (ds, rest)"
  by (induction ds) (auto simp: digits_def intro: takeWhile_eq_Nil_iff [THEN iffD2]
        simp: takeWhile_eq_Nil_iff dropWhile_eq_self_iff)

lemma number_end_not_digit:
  "number_end rest \<Longrightarrow> rest = [] \<or> \<not> is_digit (hd rest) \<and> hd rest \<noteq> CHR ''.''"
  by (cases rest) (auto simp: number_end_def is_digit_def)

lemma read_exponent_Cons:
  "read_exponent pre (e # s1) =
     (if e = CHR ''e'' \<or> e = CHR ''E'' then
        (if fst (digits (drop (length (exp_sign s1)) s1)) = []
         then Inl (ErrSyntax ''unterminated numeral'')
         else Inr (pre @ e # exp_sign s1 @ fst (digits (drop (length (exp_sign s1)) s1)),
                   snd (digits (drop (length (exp_sign s1)) s1))))
      else Inr (pre, e # s1))"
  by (simp add: read_exponent_def exp_sign_def Let_def)

lemma read_exponent_end:
  "number_end rest \<Longrightarrow> read_exponent pre rest = Inr (pre, rest)"
  by (cases rest) (auto simp: number_end_def read_exponent_Cons read_exponent_def)

lemma read_exponent_exp:
  assumes "sg = CHR ''+'' \<or> sg = CHR ''-''" and "ds \<noteq> []" and "list_all is_digit ds"
    and "rest = [] \<or> \<not> is_digit (hd rest)"
  shows "read_exponent pre (CHR ''e'' # sg # ds @ rest) = Inr (pre @ CHR ''e'' # sg # ds, rest)"
proof -
  have s: "exp_sign (sg # ds @ rest) = [sg]"
    using assms(1) by (auto simp: exp_sign_def)
  show ?thesis
    using assms(2) by (simp add: read_exponent_Cons s digits_all [OF assms(3,4)])
qed

lemma read_fraction_Cons:
  "read_fraction pre (d # s1) =
     (if d = CHR ''.'' then
        (if fst (digits s1) = [] then Inl (ErrSyntax ''unterminated numeral'')
         else read_exponent (pre @ d # fst (digits s1)) (snd (digits s1)))
      else read_exponent pre (d # s1))"
  by (simp add: read_fraction_def)

lemma num_sign_append:
  "s \<noteq> [] \<Longrightarrow> num_sign (s @ rest) = num_sign s" "length (num_sign s) \<le> length s"
  by (cases s; simp add: num_sign_def)+

lemma read_number_unfold:
  "read_number s =
     (if fst (digits (drop (length (num_sign s)) s)) = []
      then Inl (ErrSyntax ''unterminated numeral'')
      else read_fraction (num_sign s @ fst (digits (drop (length (num_sign s)) s)))
             (snd (digits (drop (length (num_sign s)) s))))"
  by (simp add: read_number_def num_sign_def Let_def)

lemma num_sign_prefix: "num_sign b @ drop (length (num_sign b)) b = b"
  by (cases b) (simp_all add: num_sign_def)

lemma read_number_decimal:
  assumes "decimal_shape b" and "t = [] \<or> \<not> is_digit (hd t) \<and> hd t \<noteq> CHR ''.''"
  shows "read_number (b @ t) = read_exponent b t"
proof -
  define sg where "sg = num_sign b"
  define u where "u = drop (length sg) b"
  define i where "i = takeWhile is_digit u"
  define r where "r = dropWhile is_digit u"
  have b: "b = sg @ u" unfolding sg_def u_def by (simp add: num_sign_prefix)
  have u: "u = i @ r" unfolding i_def r_def by simp
  from assms(1) have i: "i \<noteq> []"
    and r: "r = [] \<or> (hd r = CHR ''.'' \<and> tl r \<noteq> [] \<and> list_all is_digit (tl r))"
    unfolding decimal_shape_def Let_def sg_def [symmetric] u_def [symmetric]
      i_def [symmetric] r_def [symmetric] by simp_all
  have ne: "b \<noteq> []" using b u i by simp
  have ia: "list_all is_digit i"
    unfolding i_def list_all_iff by (auto dest: set_takeWhileD)
  have t': "t = [] \<or> \<not> is_digit (hd t)" using assms(2) by auto
  have ns: "num_sign (b @ t) = sg" unfolding sg_def by (rule num_sign_append(1) [OF ne])
  have dr: "drop (length sg) (b @ t) = u @ t"
    unfolding u_def sg_def using num_sign_append(2) [of b] by simp
  have dg: "digits (u @ t) = (i, r @ t)"
  proof (cases r)
    case Nil
    then show ?thesis using digits_all [OF ia t'] u by simp
  next
    case (Cons c fr)
    with r have c: "c = CHR ''.''" by simp
    have nd: "\<not> is_digit (CHR ''.'')" by (simp add: is_digit_def)
    have "digits (i @ CHR ''.'' # (fr @ t)) = (fst (digits i), snd (digits i) @ CHR ''.'' # fr @ t)"
      by (rule digits_append [OF nd])
    moreover have "digits i = (i, [])" using digits_all [OF ia, of "[]"] by simp
    ultimately show ?thesis using u Cons c by simp
  qed
  have rn: "read_number (b @ t) = read_fraction (sg @ i) (r @ t)"
    by (subst read_number_unfold) (simp only: ns dr dg fst_conv snd_conv i if_False)
  show ?thesis
  proof (cases r)
    case Nil
    then have bb: "b = sg @ i" using b u by simp
    show ?thesis
    proof (cases t)
      case Nil
      then show ?thesis using rn \<open>r = []\<close> bb by (simp add: read_fraction_def read_exponent_def)
    next
      case (Cons c t1)
      with assms(2) have "c \<noteq> CHR ''.''" by simp
      then show ?thesis using rn \<open>r = []\<close> bb Cons by (simp add: read_fraction_Cons)
    qed
  next
    case (Cons c fr)
    with r have c: "c = CHR ''.''" and fr: "fr \<noteq> []" "list_all is_digit fr" by simp_all
    have bb: "b = sg @ i @ CHR ''.'' # fr" using b u Cons c by simp
    have "digits (fr @ t) = (fr, t)" by (rule digits_all [OF fr(2) t'])
    then show ?thesis using rn Cons c fr(1) bb by (simp add: read_fraction_Cons)
  qed
qed

lemma exponent_shape_split:
  assumes "exponent_shape b"
  obtains m sg ds where "b = m @ CHR ''e'' # sg # ds" "decimal_shape m"
    "sg = CHR ''+'' \<or> sg = CHR ''-''" "list_all is_digit ds" "2 \<le> length ds"
proof -
  define m where "m = takeWhile (\<lambda>c. c \<noteq> CHR ''e'') b"
  define x where "x = dropWhile (\<lambda>c. c \<noteq> CHR ''e'') b"
  from assms have d: "decimal_shape m" and l: "4 \<le> length x"
    and s: "x ! 1 = CHR ''+'' \<or> x ! 1 = CHR ''-''" and a: "list_all is_digit (drop 2 x)"
    unfolding exponent_shape_def Let_def m_def [symmetric] x_def [symmetric] by simp_all
  from l obtain x0 x1 ds where x: "x = x0 # x1 # ds"
    by (cases x; cases "tl x") auto
  have "x \<noteq> []" using x by simp
  then have "\<not> (hd x \<noteq> CHR ''e'')" unfolding x_def by (rule hd_dropWhile)
  then have x0: "x0 = CHR ''e''" using x by simp
  have "b = m @ x" unfolding m_def x_def by simp
  then have "b = m @ CHR ''e'' # x1 # ds" using x x0 by simp
  moreover have "x1 = CHR ''+'' \<or> x1 = CHR ''-''" using s x by simp
  moreover have "list_all is_digit ds" using a x by simp
  moreover have "2 \<le> length ds" using l x by simp
  ultimately show ?thesis using d that by blast
qed

lemma clean_exponent_cases:
  assumes "sg = CHR ''+'' \<or> sg = CHR ''-''" and "list_all is_digit ds" and "2 \<le> length ds"
  shows "clean_exponent (m @ CHR ''e'' # sg # ds) = m @ CHR ''e'' # sg # ds
         \<or> (\<exists>c. is_digit c \<and> sg = CHR ''-'' \<and> ds = [CHR ''0'', c]
               \<and> clean_exponent (m @ CHR ''e'' # sg # ds) = m @ ''e-'' @ [c])"
proof (cases "length ds = 2")
  case True
  then obtain x y where ds: "ds = [x, y]"
    by (cases ds; cases "tl ds") auto
  show ?thesis
  proof (cases "sg = CHR ''-'' \<and> x = CHR ''0''")
    case True
    have "clean_exponent (m @ ''e-0'' @ [y]) = m @ ''e-'' @ [y]"
      by (rule clean_exponent_strip)
    moreover have "is_digit y" using assms(2) ds by simp
    ultimately show ?thesis using True ds by simp
  next
    case False
    then have "sg \<noteq> CHR ''-'' \<or> x \<noteq> CHR ''0''" by simp
    from clean_exponent_two_digits [OF this, of m "CHR ''e''" y]
    show ?thesis using ds by simp
  qed
next
  case False
  with assms(3) have "3 \<le> length ds" by simp
  define tl3 where "tl3 = drop (length ds - 3) ds"
  from \<open>3 \<le> length ds\<close> have "length tl3 = Suc (Suc (Suc 0))" by (simp add: tl3_def)
  then obtain x y z where "tl3 = [x, y, z]"
    by (auto simp: length_Suc_conv)
  then have "ds = take (length ds - 3) ds @ [x, y, z]"
    using append_take_drop_id [of "length ds - 3" ds] by (simp add: tl3_def)
  then obtain ds' where ds: "ds = ds' @ [x, y, z]" ..
  define s where "s = last (sg # ds')"
  have sne: "s \<noteq> CHR ''e''"
  proof (cases ds' rule: rev_cases)
    case Nil
    then show ?thesis using assms(1) by (auto simp: s_def)
  next
    case (snoc ds'' q)
    then have "is_digit q" using assms(2) ds by simp
    then show ?thesis using snoc by (auto simp: s_def is_digit_def)
  qed
  have "sg # ds' = butlast (sg # ds') @ [s]" unfolding s_def by simp
  then have "m @ CHR ''e'' # sg # ds = (m @ CHR ''e'' # butlast (sg # ds')) @ [s, x, y, z]"
    using ds by (metis append_Cons append_Nil append_assoc)
  then show ?thesis
    using clean_exponent_three_digits [OF sne, of "m @ CHR ''e'' # butlast (sg # ds')" x y z]
    by simp
qed

lemma float_fmt_cases: "float_fmt bits f = CHR ''e'' \<or> float_fmt bits f = CHR ''f''"
  by (simp add: float_fmt_def Let_def)

lemma float_text_read:
  assumes "strconv_reads_back L f" and "exponent_zero_ignored L" and "number_end rest"
  shows "read_number (float_text L 64 f @ rest) = Inr (float_text L 64 f, rest)"
    and "ParseFloat L (float_text L 64 f) 64 = Inr f"
proof -
  note ne = number_end_not_digit [OF assms(3)]
  from ne have ne': "rest = [] \<or> \<not> is_digit (hd rest)" by auto
  have "read_number (float_text L 64 f @ rest) = Inr (float_text L 64 f, rest)
        \<and> ParseFloat L (float_text L 64 f) 64 = Inr f"
  proof (cases "float_fmt 64 f = CHR ''e''")
    case False
    then have t: "float_text L 64 f = AppendFloat L f (CHR ''f'') (- 1) 64"
      using float_fmt_cases [of 64 f] by (auto simp: float_text_def Let_def)
    from assms(1) have d: "decimal_shape (AppendFloat L f (CHR ''f'') (- 1) 64)"
      and p: "ParseFloat L (AppendFloat L f (CHR ''f'') (- 1) 64) 64 = Inr f"
      by (simp_all add: strconv_reads_back_def)
    show ?thesis
      unfolding t using read_number_decimal [OF d ne] read_exponent_end [OF assms(3)] p by simp
  next
    case True
    define b where "b = AppendFloat L f (CHR ''e'') (- 1) 64"
    have t: "float_text L 64 f = clean_exponent b"
      using True by (simp add: float_text_def Let_def b_def)
    from assms(1) have e: "exponent_shape b" and p: "ParseFloat L b 64 = Inr f"
      by (simp_all add: strconv_reads_back_def b_def)
    from e obtain m sg ds where b: "b = m @ CHR ''e'' # sg # ds" and d: "decimal_shape m"
      and sg: "sg = CHR ''+'' \<or> sg = CHR ''-''" and ds: "list_all is_digit ds" "2 \<le> length ds"
      by (rule exponent_shape_split)
    have et: "CHR ''e'' # x = [] \<or> \<not> is_digit (hd (CHR ''e'' # x)) \<and> hd (CHR ''e'' # x) \<noteq> CHR ''.''"
      for x by (simp add: is_digit_def)
    have rd: "read_number ((m @ CHR ''e'' # sg # ds') @ rest) = Inr (m @ CHR ''e'' # sg # ds', rest)"
      if "ds' \<noteq> []" "list_all is_digit ds'" for ds'
      using read_number_decimal [OF d et, of "sg # ds' @ rest"]
        read_exponent_exp [OF sg that ne', of m] by simp
    from clean_exponent_cases [OF sg ds, of m]
    show ?thesis
    proof
      assume c: "clean_exponent (m @ CHR ''e'' # sg # ds) = m @ CHR ''e'' # sg # ds"
      have "ds \<noteq> []" using ds(2) by auto
      from rd [OF this ds(1)] show ?thesis
        unfolding t using c b p by simp
    next
      assume "\<exists>c. is_digit c \<and> sg = CHR ''-'' \<and> ds = [CHR ''0'', c]
               \<and> clean_exponent (m @ CHR ''e'' # sg # ds) = m @ ''e-'' @ [c]"
      then obtain c where c: "is_digit c" "sg = CHR ''-''" "ds = [CHR ''0'', c]"
        "clean_exponent (m @ CHR ''e'' # sg # ds) = m @ ''e-'' @ [c]" by blast
      have "ParseFloat L (m @ ''e-0'' @ [c]) 64 = Inr f" using p b c by simp
      with assms(2) c(1) have pf: "ParseFloat L (m @ ''e-'' @ [c]) 64 = Inr f"
        unfolding exponent_zero_ignored_def by blast
      have "read_number ((m @ CHR ''e'' # sg # [c]) @ rest) = Inr (m @ CHR ''e'' # sg # [c], rest)"
        by (rule rd) (simp_all add: c(1))
      then show ?thesis
        unfolding t b using c pf by simp
    qed
  qed
  then show "read_number (float_text L 64 f @ rest) = Inr (float_text L 64 f, rest)"
    and "ParseFloat L (float_text L 64 f) 64 = Inr f" by simp_all
qed

section \<open>Encoding and decoding again\<close>

lemma readToken_number:
  assumes "read_number s = Inr (t, s')"
  shows "readToken s = Inr (TNumber t, s')"
proof -
  from assms obtain c cs where s: "s = c # cs"
    by (cases s) (auto simp: read_number_def digits_def)
  have c: "c = CHR ''-'' \<or> is_digit c"
  proof (rule ccontr)
    assume "\<not> (c = CHR ''-'' \<or> is_digit c)"
    with assms s show False by (simp add: read_number_def digits_def)
  qed
  from c have "\<not> is_space c" "\<not> is_separator c" "\<not> is_delim c" "c \<noteq> dquote"
      "c \<noteq> CHR ''n''" "c \<noteq> CHR ''t''" "c \<noteq> CHR ''f''"
    by (auto simp: is_space_def is_separator_def is_delim_def is_digit_def)
  with c assms show ?thesis
    by (simp add: readToken_def s)
qed

lemma readToken_separator:
  "readToken (CHR '','' # s) = readToken s" "readToken (CHR '':'' # s) = readToken s"
  by (simp_all add: readToken_def is_separator_def)

lemma readToken_delim:
  "is_delim c \<Longrightarrow> readToken (c # rest) = Inr (TDelim c, rest)"
  by (auto simp: readToken_def is_delim_def is_space_def is_separator_def)

lemma readToken_string:
  "read_string [] s = Inr (t, rest) \<Longrightarrow> readToken (dquote # s) = Inr (TString t, rest)"
  by (simp add: readToken_def is_delim_def is_space_def is_separator_def)

lemma marshalTo_roundtrippable:
  "roundtrippable L v \<Longrightarrow> marshalTo L buffer_Write w v = (w @ text_of L v, None)"
  "roundtrippable_elems L xs \<Longrightarrow>
     marshalTo_elems L buffer_Write w first xs = (w @ elems_text L first xs, None)"
  "roundtrippable_members L kvs \<Longrightarrow>
     marshalTo_members L buffer_Write w first kvs = (w @ members_text L first kvs, None)"
proof (induction L v and L first xs and L first kvs arbitrary: w and w and w
    rule: text_of_elems_text_members_text.induct)
  case (2 L b)
  then show ?case by (simp add: write_bb_buffer AppendBool_def)
next
  case (3 L f)
  then show ?case
    by (simp add: float64Encoder_def encode_def buffer_Write_def)
next
  case (4 L s)
  then show ?case by (simp add: encodeString_buffer)
next
  case (5 L xs)
  then show ?case by (simp add: buffer_Write_def Write_drop_def)
next
  case (6 L kvs)
  then show ?case by (simp add: buffer_Write_def Write_drop_def)
next
  case (9 L first x xs)
  then show ?case by simp
next
  case (11 L first k el kvs)
  then show ?case by (simp add: encodeString_buffer)
qed (simp_all add: buffer_Write_def)

lemma unmarshalNext_scalar:
  "unmarshalNext L rt fuel r tok (TyPtr TyInterface)
     = (if tok = TNil then Inr (VNil, r) else Inl (ErrUnableToScan tok (TyPtr TyInterface)))"
  "unmarshalNext L rt fuel r (TBool b) (TyPtr TyBool) = Inr (VBool b, r)"
  "unmarshalNext L rt fuel r (TNumber n) (TyPtr TyFloat64)
     = (case ParseFloat L n 64 of Inl err \<Rightarrow> Inl err | Inr f \<Rightarrow> Inr (VFloat64 f, r))"
  "unmarshalNext L rt fuel r (TString s) (TyPtr TyString) = Inr (VString s, r)"
  by (simp_all add: unmarshalNext.simps)

lemma unmarshalNext_containers:
  "unmarshalNext L rt fuel r (TDelim (CHR ''['')) (TyPtr TySlice)
     = (case unmarshal_elems L rt fuel r [] of
          Inl err \<Rightarrow> Inl err | Inr (sliceV, r') \<Rightarrow> Inr (VSlice sliceV, r'))"
  "unmarshalNext L rt fuel r (TDelim (CHR ''{'')) (TyPtr TyMap)
     = (case unmarshal_members L rt fuel r [] of
          Inl err \<Rightarrow> Inl err | Inr (mapV, r') \<Rightarrow> Inr (VMap mapV, r'))"
  by (simp_all add: unmarshalNext.simps tokDelim_def)

lemma newDefault_not_closing:
  "newDefaultForToken tok = Inr t \<Longrightarrow> tokDelim tok \<noteq> CHR '']''"
  by (cases tok) (auto simp: tokDelim_def split: if_splits)

lemma map_store_new:
  "k \<notin> fst ` set acc \<Longrightarrow> map_store acc k v = acc @ [(k, v)]"
  by (induction acc) auto

lemma elems_text_end: "number_end (elems_text L False xs @ CHR '']'' # rest)"
  by (cases xs) (simp_all add: number_end_def)

lemma members_text_end: "number_end (members_text L False kvs @ CHR ''}'' # rest)"
  by (cases kvs) (auto simp: number_end_def)

lemma unmarshal_elems_step:
  assumes "decodes L fuel x rest'"
  shows "unmarshal_elems L readToken (Suc fuel) (text_of L x @ rest') acc
         = unmarshal_elems L readToken fuel rest' (acc @ [x])"
proof -
  from assms obtain tok r1 where
    rt: "readToken (text_of L x @ rest') = Inr (tok, r1)"
    and nd: "newDefaultForToken tok = Inr (dest_of x)"
    and un: "unmarshalNext L readToken fuel r1 tok (dest_of x) = Inr (x, rest')"
    and de: "deref (dest_of x) x = Inr x"
    by (auto simp: decodes_def)
  show ?thesis
    using rt nd un de newDefault_not_closing [OF nd] by simp
qed

lemma unmarshal_members_step:
  assumes "decodes L fuel el rest'" and "well_formed_utf8 k" and "k \<notin> fst ` set acc"
  shows "unmarshal_members L readToken (Suc fuel)
           (dquote # spec_escape False k @ [dquote] @ '':'' @ text_of L el @ rest') acc
         = unmarshal_members L readToken fuel rest' (acc @ [(k, el)])"
proof -
  from assms(1) obtain tok r1 where
    rt: "readToken (text_of L el @ rest') = Inr (tok, r1)"
    and nd: "newDefaultForToken tok = Inr (dest_of el)"
    and un: "unmarshalNext L readToken fuel r1 tok (dest_of el) = Inr (el, rest')"
    and de: "deref (dest_of el) el = Inr el"
    by (auto simp: decodes_def)
  have "read_string [] (spec_escape False k @ dquote # CHR '':'' # text_of L el @ rest')
        = Inr ([] @ k, CHR '':'' # text_of L el @ rest')"
    by (rule read_string_spec_escape [OF assms(2)])
  then have key: "readToken (dquote # spec_escape False k @ dquote # CHR '':'' # text_of L el @ rest')
        = Inr (TString k, CHR '':'' # text_of L el @ rest')"
    by (simp add: readToken_string)
  show ?thesis
    using key rt nd un de map_store_new [OF assms(3)]
    by (simp add: readToken_separator tokDelim_def)
qed

lemma decodes_roundtrippable:
  "roundtrippable L v \<Longrightarrow> exponent_zero_ignored L \<Longrightarrow> number_end rest \<Longrightarrow>
     fuel_needed v \<le> fuel \<Longrightarrow> decodes L fuel v rest"
  "roundtrippable_elems L xs \<Longrightarrow> exponent_zero_ignored L \<Longrightarrow> fuel_elems xs \<le> fuel \<Longrightarrow>
     unmarshal_elems L readToken fuel (elems_text L first xs @ CHR '']'' # rest) acc
       = Inr (acc @ xs, rest)"
  "roundtrippable_members L kvs \<Longrightarrow> exponent_zero_ignored L \<Longrightarrow>
     distinct (map fst mapV @ map fst kvs) \<Longrightarrow> fuel_members kvs \<le> fuel \<Longrightarrow>
     unmarshal_members L readToken fuel (members_text L first kvs @ CHR ''}'' # rest) mapV
       = Inr (mapV @ kvs, rest)"
proof (induction L v and L first xs and L first kvs
    arbitrary: fuel rest and fuel rest acc and fuel rest mapV
    rule: text_of_elems_text_members_text.induct)
  case (1 L)
  show ?case
    by (simp add: decodes_def readToken_def is_space_def is_separator_def is_delim_def dest_of_def
          unmarshalNext_scalar deref_def)
next
  case (2 L b)
  show ?case
    by (cases b)
      (simp_all add: decodes_def readToken_def is_space_def is_separator_def is_delim_def
        dest_of_def unmarshalNext_scalar deref_def AppendBool_def)
next
  case (3 L f)
  let ?t = "float_text L 64 f"
  from "3.prems"(1) have rb: "strconv_reads_back L f" by simp
  have "read_number (?t @ rest) = Inr (?t, rest)"
    by (rule float_text_read(1) [OF rb "3.prems"(2,3)])
  then have "readToken (?t @ rest) = Inr (TNumber ?t, rest)"
    by (rule readToken_number)
  then show ?case
    using float_text_read(2) [OF rb "3.prems"(2,3)]
    by (simp add: decodes_def dest_of_def unmarshalNext_scalar deref_def)
next
  case (4 L s)
  then have "read_string [] (spec_escape False s @ dquote # rest) = Inr ([] @ s, rest)"
    using read_string_spec_escape [of s "[]" rest] by simp
  then show ?case
    by (simp add: decodes_def readToken_string dest_of_def unmarshalNext_scalar deref_def)
next
  case (5 L xs)
  from "5.prems" have "unmarshal_elems L readToken fuel (elems_text L True xs @ CHR '']'' # rest) []
      = Inr ([] @ xs, rest)"
    by (intro "5.IH") simp_all
  then show ?case
    by (simp add: decodes_def readToken_delim is_delim_def dest_of_def
          unmarshalNext_containers deref_def)
next
  case (6 L kvs)
  from "6.prems" have "unmarshal_members L readToken fuel
      (members_text L True kvs @ CHR ''}'' # rest) [] = Inr ([] @ kvs, rest)"
    by (intro "6.IH") simp_all
  then show ?case
    by (simp add: decodes_def readToken_delim is_delim_def dest_of_def
          unmarshalNext_containers deref_def)
next
  case (8 L first)
  from "8.prems" obtain f where f: "fuel = Suc f" by (cases fuel) simp_all
  show ?case by (simp add: f readToken_delim is_delim_def tokDelim_def)
next
  case (9 L first x xs)
  from "9.prems" obtain f where f: "fuel = Suc f" and fx: "fuel_needed x \<le> f"
    and fxs: "fuel_elems xs \<le> f"
    by (cases fuel) simp_all
  let ?rest = "elems_text L False xs @ CHR '']'' # rest"
  have d: "decodes L f x ?rest"
    using "9.prems" by (intro "9.IH"(1) elems_text_end fx) simp_all
  have n: "unmarshal_elems L readToken f ?rest (acc @ [x]) = Inr ((acc @ [x]) @ xs, rest)"
    using "9.prems" by (intro "9.IH"(2) fxs) simp_all
  have "unmarshal_elems L readToken (Suc f) (text_of L x @ ?rest) acc = Inr (acc @ x # xs, rest)"
    using unmarshal_elems_step [OF d, of acc] n by simp
  moreover have "unmarshal_elems L readToken (Suc f) (CHR '','' # t) acc
          = unmarshal_elems L readToken (Suc f) t acc" for t
    by (simp add: readToken_separator)
  ultimately show ?case
    unfolding f by (cases first) (simp_all del: unmarshal_elems.simps)
next
  case (10 L first)
  from "10.prems" obtain f where f: "fuel = Suc f" by (cases fuel) simp_all
  show ?case by (simp add: f readToken_delim is_delim_def tokDelim_def)
next
  case (11 L first k el kvs)
  from "11.prems" obtain f where f: "fuel = Suc f" and fx: "fuel_needed el \<le> f"
    and fxs: "fuel_members kvs \<le> f"
    by (cases fuel) simp_all
  let ?rest = "members_text L False kvs @ CHR ''}'' # rest"
  have d: "decodes L f el ?rest"
    using "11.prems" by (intro "11.IH"(1) members_text_end fx) simp_all
  from "11.prems"(3) have k: "k \<notin> fst ` set mapV"
    and di: "distinct (map fst (mapV @ [(k, el)]) @ map fst kvs)"
    by auto
  have wf: "well_formed_utf8 k" using "11.prems"(1) by simp
  have n: "unmarshal_members L readToken f ?rest (mapV @ [(k, el)])
           = Inr ((mapV @ [(k, el)]) @ kvs, rest)"
    using "11.prems" by (intro "11.IH"(2) di fxs) simp_all
  have s: "unmarshal_members L readToken (Suc f)
           (dquote # spec_escape False k @ [dquote] @ '':'' @ text_of L el @ ?rest) mapV
         = Inr (mapV @ (k, el) # kvs, rest)"
    using unmarshal_members_step [OF d wf k] n by simp
  show ?case
  proof (cases first)
    case True
    then show ?thesis using s unfolding f by (simp del: unmarshal_members.simps)
  next
    case False
    have "unmarshal_members L readToken (Suc f) (CHR '','' # t) mapV
          = unmarshal_members L readToken (Suc f) t mapV" for t
      by (simp add: readToken_separator)
    then show ?thesis using s False unfolding f by (simp del: unmarshal_members.simps)
  qed
qed simp_all

lemma strconv_decimal_zero: "exponent_zero_ignored strconv_decimal"
proof -
  have r: "(m @ ''e-0'' @ [c] = s) = (rev s = c # CHR ''0'' # CHR ''-'' # CHR ''e'' # rev m)"
    for m :: string and c s
  proof -
    have "(m @ ''e-0'' @ [c] = s) = (rev (m @ ''e-0'' @ [c]) = rev s)"
      by (simp only: rev_is_rev_conv)
    then show ?thesis by auto
  qed
  have "ParseFloat strconv_decimal (m @ ''e-'' @ [c]) 64 = Inr x"
    if "ParseFloat strconv_decimal (m @ ''e-0'' @ [c]) 64 = Inr x" for m c x
  proof -
    from that have "m @ ''e-0'' @ [c] = ''1e-09''" and x: "x = f64_1em9"
      by (auto simp: strconv_decimal_def r split: if_splits)
    then have "m = ''1''" "c = CHR ''9''" by (simp_all add: r)
    then show ?thesis using x by (simp add: strconv_decimal_def)
  qed
  then show ?thesis by (simp add: exponent_zero_ignored_def)
qed

section \<open>The claims\<close>

text \<open>
  C7: encoding a floating value that is a NaN or an infinity fails with the error
  "cannot JSON encode infinity or NaN", a number-format error, whatever the width
  \<open>bits\<close> of the encoder, and leaves the sink as it was: nothing is written. The
  same holds through \<^verbatim>\<open>marshalTo\<close> for a \<^verbatim>\<open>float64\<close> and for a \<^verbatim>\<open>float32\<close> operand
  (a \<^verbatim>\<open>float32\<close> is a NaN or an infinity when its exponent field is all ones).
\<close>

theorem encode_rejects_NaN_and_Inf:
  "(IsNaN v \<or> IsInf v \<longrightarrow>
      encode L bits wr w v = (w, Some ErrInfOrNaN)
      \<and> marshalTo L wr w (VFloat64 v) = (w, Some ErrInfOrNaN))
   \<and> (f32_exp v32 = 0xFF \<longrightarrow> marshalTo L wr w (VFloat32 v32) = (w, Some ErrInfOrNaN))
   \<and> kind_of ErrInfOrNaN = Some NumberFormatError"
  using float64_of_float32_special [of v32]
  by (auto simp: encode_def float64Encoder_def float32Encoder_def)

theorem encode_rejects_NaN_and_Inf_witness:
  "\<forall>L. (IsNaN (0x7FF8000000000000 :: float64) \<or> IsInf (0x7FF8000000000000 :: float64))
     \<and> encode L 32 buffer_Write ''[1,'' 0x7FF8000000000000 = (''[1,'', Some ErrInfOrNaN)
     \<and> marshalTo L buffer_Write ''[1,'' (VFloat64 0x7FF8000000000000) = (''[1,'', Some ErrInfOrNaN)
     \<and> f32_exp (0xFF800000 :: float32) = 0xFF
     \<and> marshalTo L buffer_Write ''[1,'' (VFloat32 0xFF800000) = (''[1,'', Some ErrInfOrNaN)"
proof
  fix L :: strconv
  have a: "IsNaN (0x7FF8000000000000 :: float64)"
    by (simp add: IsNaN_def f64_exp_def f64_frac_def)
  have b: "f32_exp (0xFF800000 :: float32) = 0xFF"
    by (simp add: f32_exp_def)
  show "(IsNaN (0x7FF8000000000000 :: float64) \<or> IsInf (0x7FF8000000000000 :: float64))
     \<and> encode L 32 buffer_Write ''[1,'' 0x7FF8000000000000 = (''[1,'', Some ErrInfOrNaN)
     \<and> marshalTo L buffer_Write ''[1,'' (VFloat64 0x7FF8000000000000) = (''[1,'', Some ErrInfOrNaN)
     \<and> f32_exp (0xFF800000 :: float32) = 0xFF
     \<and> marshalTo L buffer_Write ''[1,'' (VFloat32 0xFF800000) = (''[1,'', Some ErrInfOrNaN)"
    using a b
      encode_rejects_NaN_and_Inf [of "0x7FF8000000000000" L 32 buffer_Write "''[1,''" "0xFF800000"]
    by blast
qed

text \<open>
  C8 does not hold as stated: a byte that belongs to no well-formed UTF-8 sequence,
  such as \<^verbatim>\<open>0xFF\<close>, is in none of the listed classes and yet is not emitted
  unescaped; the encoder writes the escape of U+FFFD in its place.
\<close>

theorem encodeString_listed_escapes_counterexample:
  "encodeString buffer_Write [] [CHR 0xFF] False = (dquote # bslash # ''ufffd'' @ [dquote], None)
   \<and> encodeString buffer_Write [] [CHR 0xFF] False
       \<noteq> (dquote # listed_escape False [CHR 0xFF] @ [dquote], None)"
  by (simp add: encodeString_buffer DecodeRuneInString.simps RuneError_def)

text \<open>
  C8, amended: for every input text and either setting of \<open>htmlSafe\<close>, what
  \<^verbatim>\<open>encodeString\<close> writes into a buffer is a double quote, the text escaped as
  \<open>spec_escape\<close> says, and a double quote: bytes below \<^verbatim>\<open>0x20\<close> as \<^verbatim>\<open>\u00XX\<close>
  except tab, newline and carriage return, which become \<^verbatim>\<open>\t\<close>, \<^verbatim>\<open>\n\<close>, \<^verbatim>\<open>\r\<close>;
  backslash and double quote behind a backslash; U+2028 and U+2029 as \<^verbatim>\<open>\u2028\<close>
  and \<^verbatim>\<open>\u2029\<close>; with \<open>htmlSafe\<close> also \<^verbatim>\<open><\<close>, \<^verbatim>\<open>>\<close>, \<^verbatim>\<open>&\<close> as \<^verbatim>\<open>\u003c\<close>, \<^verbatim>\<open>\u003e\<close>,
  \<^verbatim>\<open>\u0026\<close>; each byte that begins no well-formed UTF-8 sequence as \<^verbatim>\<open>\ufffd\<close>; every
  other byte unescaped. The two examples of the specification come out as it says.
\<close>

theorem encodeString_escapes:
  "encodeString buffer_Write b s htmlSafe = (b @ dquote # spec_escape htmlSafe s @ [dquote], None)
   \<and> encodeString buffer_Write [] [CHR 0x0A, CHR 0x09, dquote, bslash] False
       = ([dquote, bslash, CHR ''n'', bslash, CHR ''t'', bslash, dquote, bslash, bslash, dquote],
          None)
   \<and> encodeString buffer_Write [] ''<b>&'' True
       = (dquote # bslash # ''u003cb'' @ bslash # ''u003e'' @ bslash # ''u0026'' @ [dquote], None)"
  by (simp add: encodeString_buffer escape_ascii_def hex_def)



text \<open>
  C2: the hand-rolled engine at the two points where the host library is known to
  differ. \<^verbatim>\<open>marshalTo\<close> passes \<^verbatim>\<open>false\<close> for \<^verbatim>\<open>escapeHTML\<close>, so \<^verbatim>\<open><\<close> is written as it
  is; and it writes the members of an object in the order in which \<^verbatim>\<open>range\<close> visits
  the map, here \<^verbatim>\<open>b\<close> before \<^verbatim>\<open>a\<close>.
\<close>

theorem marshal_html_and_member_order:
  \<open>marshal L (VString ''<'') = (''"<"'', None)
   \<and> marshal L (VMap [(''b'', VNil), (''a'', VNil)]) = (''{"b":null,"a":null}'', None)\<close>
  by (simp add: marshal_def encodeString_buffer escape_ascii_def Write_drop_def buffer_Write_def)

text \<open>
  C3: the encode entry point does not emit the bytes of a \<^verbatim>\<open>RawMessage\<close>.
  \<^verbatim>\<open>marshalTo\<close> has no case for a \<^verbatim>\<open>RawMessage\<close>, nor for a value with a
  \<^verbatim>\<open>MarshalJSON\<close> method (line 36 of \<^verbatim>\<open>vjson.go\<close> leaves this to be done), so that a
  \<^verbatim>\<open>RawMessage\<close>, nil or not, reaches the default branch: \<^verbatim>\<open>marshal\<close> returns the
  error "unknown type", a type error, and no bytes, whatever the stored bytes are,
  \<^verbatim>\<open>1\<close> for one; as an element of a list it stops the encoding after the opening
  bracket. The method \<^verbatim>\<open>RawMessage.MarshalJSON\<close>, which gives the stored bytes as
  they are, and \<^verbatim>\<open>null\<close> for the nil \<^verbatim>\<open>RawMessage\<close> only, is called by no code of the
  engine.
\<close>

theorem marshal_RawMessage_unknown_type:
  "marshal L (VRawMessage m) = ([], Some (ErrMarshalUnknownType TyRawMessage))
   \<and> marshal L (VRawMessage (Some ''1'')) \<noteq> (''1'', None)
   \<and> marshalTo L wr w (VRawMessage m) = (w, Some (ErrMarshalUnknownType TyRawMessage))
   \<and> kind_of (ErrMarshalUnknownType TyRawMessage) = Some TypeError
   \<and> marshal L (VSlice [VRawMessage (Some ''1'')])
       = (''['', Some (ErrMarshalUnknownType TyRawMessage))
   \<and> MarshalJSON (Some b) = (b, None)
   \<and> MarshalJSON None = (''null'', None)
   \<and> MarshalJSON (Some []) = ([], None)"
  by (simp add: marshal_def MarshalJSON_def Write_drop_def buffer_Write_def)

text \<open>
  C4: with a pointer to an untyped value as the destination, \<^verbatim>\<open>unmarshalNext\<close>
  succeeds on the null token, storing nil and reading nothing more, and fails on
  every other token with "unable to scan", a type error, whatever the tokenizer
  and the rest of the input are. The type of a value is inferred from its leading
  token by \<^verbatim>\<open>newDefaultForToken\<close>, which the decoder calls on the elements of a list
  and the members of a map only: null gives the generic slot, and a boolean, a
  number, a string, \<^verbatim>\<open>[\<close> and \<^verbatim>\<open>{\<close> give a slot of their own type.
\<close>

theorem generic_slot_accepts_only_null:
  "unmarshalNext L rt fuel r tok (TyPtr TyInterface)
     = (if tok = TNil then Inr (VNil, r) else Inl (ErrUnableToScan tok (TyPtr TyInterface)))
   \<and> kind_of (ErrUnableToScan tok (TyPtr TyInterface)) = Some TypeError
   \<and> newDefaultForToken TNil = Inr (TyPtr TyInterface)
   \<and> newDefaultForToken (TBool b) = Inr (TyPtr TyBool)
   \<and> newDefaultForToken (TNumber n) = Inr (TyPtr TyFloat64)
   \<and> newDefaultForToken (TString s) = Inr (TyPtr TyString)
   \<and> newDefaultForToken (TDelim (CHR ''['')) = Inr (TyPtr TySlice)
   \<and> newDefaultForToken (TDelim (CHR ''{'')) = Inr (TyPtr TyMap)"
  by (simp add: unmarshalNext.simps)

text \<open>
  C5 does not hold as stated: the leading token of the input is \<^verbatim>\<open>[\<close>, not null, so
  decoding it into the generic slot fails with "unable to scan" and yields no array.
\<close>

theorem unmarshal_array_into_generic_slot_counterexample:
  \<open>\<forall>L fuel.
     unmarshal L fuel ''[1,"a",true,null,{"k":2}]'' (TyPtr TyInterface)
       = Inl (ErrUnableToScan (TDelim (CHR ''['')) (TyPtr TyInterface))
     \<and> unmarshal L fuel ''[1,"a",true,null,{"k":2}]'' (TyPtr TyInterface)
       \<noteq> Inr (VSlice [VFloat64 one_f64, VString ''a'', VBool True, VNil,
                       VMap [(''k'', VFloat64 two_f64)]], [])\<close>
  by (simp add: unmarshal_def unmarshalFrom_def readToken_def is_space_def is_separator_def is_delim_def
        unmarshalNext.simps)

text \<open>
  C5, amended: decoding \<^verbatim>\<open>[1,"a",true,null,{"k":2}]\<close> into a generic slot fails with a
  type error, the slot accepting the null token only. Decoding it into a list
  destination succeeds when \<^verbatim>\<open>strconv.ParseFloat\<close> reads the two numerals, and yields
  the list of five elements, each of the type that its leading token gives: the
  \<^verbatim>\<open>float64\<close> that \<^verbatim>\<open>strconv.ParseFloat\<close> reads from \<^verbatim>\<open>1\<close>, the string \<^verbatim>\<open>a\<close>, the boolean
  \<^verbatim>\<open>true\<close>, nil, and the map whose key \<^verbatim>\<open>k\<close> has the \<^verbatim>\<open>float64\<close> read from \<^verbatim>\<open>2\<close>; all
  the input is used up. The loops of the decoder take seven rounds on this input;
  an error of \<^verbatim>\<open>strconv.ParseFloat\<close> is the error of the decoding.
\<close>

theorem unmarshal_array_into_list_destination:
  \<open>unmarshal L fuel ''[1,"a",true,null,{"k":2}]'' (TyPtr TyInterface)
     = Inl (ErrUnableToScan (TDelim (CHR ''['')) (TyPtr TyInterface))
   \<and> kind_of (ErrUnableToScan (TDelim (CHR ''['')) (TyPtr TyInterface)) = Some TypeError
   \<and> unmarshal L (7 + fuel) ''[1,"a",true,null,{"k":2}]'' (TyPtr TySlice)
     = (case ParseFloat L ''1'' 64 of
          Inl err \<Rightarrow> Inl err
        | Inr f1 \<Rightarrow>
            (case ParseFloat L ''2'' 64 of
               Inl err \<Rightarrow> Inl err
             | Inr f2 \<Rightarrow>
                 Inr (VSlice [VFloat64 f1, VString ''a'', VBool True, VNil,
                              VMap [(''k'', VFloat64 f2)]], [])))\<close>
proof -
  have g: \<open>unmarshal L fuel ''[1,"a",true,null,{"k":2}]'' (TyPtr TyInterface)
     = Inl (ErrUnableToScan (TDelim (CHR ''['')) (TyPtr TyInterface))\<close>
    by (simp add: unmarshal_def unmarshalFrom_def readToken_def is_space_def is_separator_def
          is_delim_def unmarshalNext.simps)
  have n: "7 + fuel = Suc (Suc (Suc (Suc (Suc (Suc (Suc fuel))))))" by simp
  have l: \<open>unmarshal L (7 + fuel) ''[1,"a",true,null,{"k":2}]'' (TyPtr TySlice)
     = (case ParseFloat L ''1'' 64 of
          Inl err \<Rightarrow> Inl err
        | Inr f1 \<Rightarrow>
            (case ParseFloat L ''2'' 64 of
               Inl err \<Rightarrow> Inl err
             | Inr f2 \<Rightarrow>
                 Inr (VSlice [VFloat64 f1, VString ''a'', VBool True, VNil,
                              VMap [(''k'', VFloat64 f2)]], [])))\<close>
    unfolding n
    by (simp add: unmarshal_def unmarshalFrom_def readToken_def is_space_def is_separator_def
          is_delim_def is_digit_def read_number_def read_fraction_def read_exponent_def
          digits_def unmarshalNext_containers unmarshalNext_scalar tokDelim_def deref_def
          split: sum.splits)
  show ?thesis using g l by simp
qed

text \<open>
  C10: with a pointer to any fixed-width integer as the destination,
  \<^verbatim>\<open>unmarshalNext\<close> fails with "unknown type", a type error, whatever the token is,
  a number included; a number token is decoded into a \<^verbatim>\<open>float64\<close> destination,
  through \<^verbatim>\<open>strconv.ParseFloat\<close>. Encoding accepts a value of each of the ten integer
  types and writes its decimal text.
\<close>

theorem integer_destinations_unsupported:
  "(t \<in> set fixed_width_ints \<longrightarrow>
      unmarshalNext L rt fuel r tok (TyPtr t) = Inl (ErrUnmarshalUnknownType (TyPtr t))
      \<and> kind_of (ErrUnmarshalUnknownType (TyPtr t)) = Some TypeError)
   \<and> unmarshalNext L rt fuel r (TNumber n) (TyPtr TyFloat64)
       = (case ParseFloat L n 64 of Inl err \<Rightarrow> Inl err | Inr f \<Rightarrow> Inr (VFloat64 f, r))
   \<and> marshal L (VInt i) = (AppendInt (sint i), None)
   \<and> marshal L (VInt8 i8) = (AppendInt (sint i8), None)
   \<and> marshal L (VInt16 i16) = (AppendInt (sint i16), None)
   \<and> marshal L (VInt32 i32) = (AppendInt (sint i32), None)
   \<and> marshal L (VInt64 i64) = (AppendInt (sint i64), None)
   \<and> marshal L (VUint u) = (AppendUint (unat u), None)
   \<and> marshal L (VUint8 u8) = (AppendUint (unat u8), None)
   \<and> marshal L (VUint16 u16) = (AppendUint (unat u16), None)
   \<and> marshal L (VUint32 u32) = (AppendUint (unat u32), None)
   \<and> marshal L (VUint64 u64) = (AppendUint (unat u64), None)"
  by (auto simp: unmarshalNext.simps fixed_width_ints_def marshal_def write_bb_buffer
        AppendInt_nonempty AppendUint_nonempty)


theorem integer_destinations_unsupported_witness:
  "\<forall>L rt fuel. TyInt32 \<in> set fixed_width_ints
     \<and> unmarshalNext L rt fuel ''  '' (TNumber ''1'') (TyPtr TyInt32)
         = Inl (ErrUnmarshalUnknownType (TyPtr TyInt32))
     \<and> kind_of (ErrUnmarshalUnknownType (TyPtr TyInt32)) = Some TypeError"
proof (intro allI)
  fix L :: strconv and rt :: "reader \<Rightarrow> error + token \<times> reader" and fuel :: nat
  have m: "TyInt32 \<in> set fixed_width_ints"
    by (simp add: fixed_width_ints_def)
  show "TyInt32 \<in> set fixed_width_ints
     \<and> unmarshalNext L rt fuel ''  '' (TNumber ''1'') (TyPtr TyInt32)
         = Inl (ErrUnmarshalUnknownType (TyPtr TyInt32))
     \<and> kind_of (ErrUnmarshalUnknownType (TyPtr TyInt32)) = Some TypeError"
    using m integer_destinations_unsupported [of TyInt32 L rt fuel "''  ''" "TNumber ''1''"]
    by blast
qed

text \<open>
  C6 does not hold as stated: zero is not in the interval from \<^verbatim>\<open>1e-6\<close> to \<^verbatim>\<open>1e21\<close>,
  and yet it is formatted in fixed-point notation, the code testing \<^verbatim>\<open>abs != 0\<close>
  before it compares.
\<close>

theorem float_fmt_zero_counterexample:
  "float_fmt 64 0 = CHR ''f''
   \<and> \<not> (f64_scaled c64_1em6 \<le> f64_scaled (Abs 0))
   \<and> (\<forall>L. encode L 64 buffer_Write [] 0 = (AppendFloat L 0 (CHR ''f'') (- 1) 64, None))"
proof -
  have a: "float_fmt 64 0 = CHR ''f''" by (rule fmt_examples(4))
  have z: "f64_scaled (Abs 0) = 0"
    by (simp add: f64_scaled_Abs f64_scaled_zero)
  have p: "0 < f64_scaled c64_1em6"
    by (simp add: f64_scaled_def c64_1em6_def f64_exp_def f64_frac_def f64_neg_def)
  have b: "\<not> (f64_scaled c64_1em6 \<le> f64_scaled (Abs 0))"
    using p by (simp only: z not_le)
  show ?thesis
    using a b by (simp add: encode_def float_text_def Let_def examples_finite buffer_Write_def)
qed

text \<open>
  C6, amended: for every finite floating-point input the formatter writes the text
  that \<^verbatim>\<open>strconv.AppendFloat\<close> gives for precision \<^verbatim>\<open>-1\<close> (the fewest digits that read
  back as the value) at the operand's width, in fixed-point notation exactly when
  the value is zero or its absolute value lies in \<^verbatim>\<open>[1e-6, 1e21)\<close>, the comparison
  being made at the operand's own width (for 32 bits, on the value converted to
  \<^verbatim>\<open>float32\<close> against the \<^verbatim>\<open>float32\<close> constants), and in exponential notation
  otherwise. In exponential notation a text that ends in \<^verbatim>\<open>e-0\<close> and one digit loses
  that zero (\<^verbatim>\<open>e-09\<close> becomes \<^verbatim>\<open>e-9\<close>); a text whose exponent has two digits and is
  not of that form, or has three digits, is left as it is. Given the texts
  \<^verbatim>\<open>1e+21\<close>, \<^verbatim>\<open>1e-09\<close> and \<^verbatim>\<open>123\<close> of \<^verbatim>\<open>strconv\<close> for \<^verbatim>\<open>1e21\<close>, \<^verbatim>\<open>1e-9\<close> and \<^verbatim>\<open>123.0\<close>, the
  formatter's texts are \<^verbatim>\<open>1e+21\<close>, \<^verbatim>\<open>1e-9\<close> and \<^verbatim>\<open>123\<close>.

  Values are compared as integers: \<open>f64_scaled\<close> is the value times \<open>2 ^ 1074\<close>.
\<close>

theorem float_format_choice:
  "(\<not> IsNaN v \<and> \<not> IsInf v \<longrightarrow>
      encode L bits wr w v = wr w (float_text L bits v)
      \<and> float_text L bits v
          = (if float_fmt bits v = CHR ''e''
             then clean_exponent (AppendFloat L v (CHR ''e'') (- 1) bits)
             else AppendFloat L v (CHR ''f'') (- 1) bits)
      \<and> (float_fmt 64 v = CHR ''f'' \<longleftrightarrow>
            f64_scaled (Abs v) = 0
            \<or> (f64_scaled c64_1em6 \<le> f64_scaled (Abs v)
                \<and> f64_scaled (Abs v) < 10 ^ 21 * 2 ^ 1074))
      \<and> (float_fmt 32 v = CHR ''f'' \<longleftrightarrow>
            f64_scaled (Abs v) = 0
            \<or> (f32_scaled c32_1em6 \<le> f32_scaled (float32_of_float64 (Abs v))
                \<and> f32_scaled (float32_of_float64 (Abs v)) < f32_scaled c32_1e21))
      \<and> (float_fmt bits v = CHR ''f'' \<or> float_fmt bits v = CHR ''e''))
   \<and> clean_exponent (d @ ''e-0'' @ [c]) = d @ ''e-'' @ [c]
   \<and> (sg \<noteq> CHR ''-'' \<or> x \<noteq> CHR ''0'' \<longrightarrow>
        clean_exponent (d @ [CHR ''e'', sg, x, y]) = d @ [CHR ''e'', sg, x, y])
   \<and> (s \<noteq> CHR ''e'' \<longrightarrow> clean_exponent (d @ [s, x, y, z]) = d @ [s, x, y, z])
   \<and> (AppendFloat L c64_1e21 (CHR ''e'') (- 1) 64 = ''1e+21'' \<longrightarrow>
        float_text L 64 c64_1e21 = ''1e+21'')
   \<and> (AppendFloat L f64_1em9 (CHR ''e'') (- 1) 64 = ''1e-09'' \<longrightarrow>
        float_text L 64 f64_1em9 = ''1e-9'')
   \<and> (AppendFloat L f64_123 (CHR ''f'') (- 1) 64 = ''123'' \<longrightarrow>
        float_text L 64 f64_123 = ''123'')"
proof -
  have fmt: "float_fmt bits v = CHR ''f'' \<or> float_fmt bits v = CHR ''e''"
    by (simp add: float_fmt_def Let_def)
  have ftext: "float_text L bits v
          = (if float_fmt bits v = CHR ''e''
             then clean_exponent (AppendFloat L v (CHR ''e'') (- 1) bits)
             else AppendFloat L v (CHR ''f'') (- 1) bits)"
    using fmt by (auto simp: float_text_def Let_def)
  have ex1: "AppendFloat L c64_1e21 (CHR ''e'') (- 1) 64 = ''1e+21'' \<Longrightarrow>
        float_text L 64 c64_1e21 = ''1e+21''"
    by (simp add: float_text_def Let_def fmt_examples clean_exponent_def)
  have ex2: "AppendFloat L f64_1em9 (CHR ''e'') (- 1) 64 = ''1e-09'' \<Longrightarrow>
        float_text L 64 f64_1em9 = ''1e-9''"
    by (simp add: float_text_def Let_def fmt_examples clean_exponent_def)
  have ex3: "AppendFloat L f64_123 (CHR ''f'') (- 1) 64 = ''123'' \<Longrightarrow>
        float_text L 64 f64_123 = ''123''"
    by (simp add: float_text_def Let_def fmt_examples)
  show ?thesis
    using fmt ftext ex1 ex2 ex3 float_fmt_64 [of v] float_fmt_32 [of v]
      clean_exponent_strip [of d c] clean_exponent_two_digits [of sg x d "CHR ''e''" y]
      clean_exponent_three_digits [of s d x y z]
    by (simp add: encode_def)
qed

theorem float_format_choice_witness:
  "\<not> IsNaN f64_123 \<and> \<not> IsInf f64_123
   \<and> encode strconv_examples 64 buffer_Write [] f64_123 = (''123'', None)
   \<and> float_fmt 64 f64_123 = CHR ''f''
   \<and> CHR ''+'' \<noteq> CHR ''-''
   \<and> clean_exponent (''1'' @ [CHR ''e'', CHR ''+'', CHR ''2'', CHR ''1'']) = ''1e+21''
   \<and> CHR ''-'' \<noteq> CHR ''e''
   \<and> clean_exponent (''1'' @ [CHR ''-'', CHR ''2'', CHR ''1'', CHR ''0'']) = ''1-210''
   \<and> AppendFloat strconv_examples c64_1e21 (CHR ''e'') (- 1) 64 = ''1e+21''
   \<and> float_text strconv_examples 64 c64_1e21 = ''1e+21''
   \<and> AppendFloat strconv_examples f64_1em9 (CHR ''e'') (- 1) 64 = ''1e-09''
   \<and> float_text strconv_examples 64 f64_1em9 = ''1e-9''
   \<and> AppendFloat strconv_examples f64_123 (CHR ''f'') (- 1) 64 = ''123''
   \<and> float_text strconv_examples 64 f64_123 = ''123''"
proof -
  have h: "AppendFloat strconv_examples c64_1e21 (CHR ''e'') (- 1) 64 = ''1e+21''"
    "AppendFloat strconv_examples f64_1em9 (CHR ''e'') (- 1) 64 = ''1e-09''"
    "AppendFloat strconv_examples f64_123 (CHR ''f'') (- 1) 64 = ''123''"
    by (simp_all add: strconv_examples_def c64_1e21_def f64_1em9_def)
  show ?thesis
    using h examples_finite(1,2) fmt_examples(3)
      float_format_choice [of f64_123 strconv_examples 64 buffer_Write "[]" "''1''" "CHR ''9''"
        "CHR ''+''" "CHR ''2''" "CHR ''1''" "CHR ''-''" "CHR ''0''"]
    by (simp add: buffer_Write_def)
qed

text \<open>
  C1 does not hold as stated. A NaN is a \<^verbatim>\<open>float64\<close>, and encoding it fails, so that
  there are no bytes to decode. The string of the single byte \<^verbatim>\<open>0xFF\<close> is encoded as
  the escape of U+FFFD and comes back as the three bytes of U+FFFD. The nil list
  and the nil map are encoded as \<^verbatim>\<open>null\<close>, which a list or map destination does not
  accept.
\<close>

theorem roundtrip_counterexample:
  "\<forall>L fuel.
     marshal L (VFloat64 0x7FF8000000000000) = ([], Some ErrInfOrNaN)
     \<and> unmarshal L fuel [] (TyPtr TyFloat64) = Inl (ErrIO ''EOF'')
     \<and> marshal L (VString [CHR 0xFF]) = (dquote # bslash # ''ufffd'' @ [dquote], None)
     \<and> unmarshal L fuel (dquote # bslash # ''ufffd'' @ [dquote]) (TyPtr TyString)
         = Inr (VString [CHR 0xEF, CHR 0xBF, CHR 0xBD], [])
     \<and> marshal L VSliceNil = (''null'', None)
     \<and> unmarshal L fuel ''null'' (TyPtr TySlice) = Inl (ErrUnableToScan TNil (TyPtr TySlice))
     \<and> marshal L VMapNil = (''null'', None)
     \<and> unmarshal L fuel ''null'' (TyPtr TyMap) = Inl (ErrUnableToScan TNil (TyPtr TyMap))"
proof (intro allI)
  fix L :: strconv and fuel :: nat
  have nan: "IsNaN (0x7FF8000000000000 :: float64)"
    by (simp add: IsNaN_def f64_exp_def f64_frac_def)
  have e: "EncodeRune 0xFFFD = [CHR 0xEF, CHR 0xBF, CHR 0xBD]"
    unfolding EncodeRune_def by (simp, intro conjI; rule char_eqI; simp)
  show "marshal L (VFloat64 0x7FF8000000000000) = ([], Some ErrInfOrNaN)
     \<and> unmarshal L fuel [] (TyPtr TyFloat64) = Inl (ErrIO ''EOF'')
     \<and> marshal L (VString [CHR 0xFF]) = (dquote # bslash # ''ufffd'' @ [dquote], None)
     \<and> unmarshal L fuel (dquote # bslash # ''ufffd'' @ [dquote]) (TyPtr TyString)
         = Inr (VString [CHR 0xEF, CHR 0xBF, CHR 0xBD], [])
     \<and> marshal L VSliceNil = (''null'', None)
     \<and> unmarshal L fuel ''null'' (TyPtr TySlice) = Inl (ErrUnableToScan TNil (TyPtr TySlice))
     \<and> marshal L VMapNil = (''null'', None)
     \<and> unmarshal L fuel ''null'' (TyPtr TyMap) = Inl (ErrUnableToScan TNil (TyPtr TyMap))"
    using nan e
    by (simp add: marshal_def float64Encoder_def encode_def encodeString_buffer
          DecodeRuneInString.simps RuneError_def write_bb_buffer
          unmarshal_def unmarshalFrom_def readToken_def is_space_def is_separator_def is_delim_def
          hex4_def hexval_def unmarshalNext_scalar unmarshalNext.simps tokDelim_def)
qed

text \<open>
  C1, amended: let \<open>v\<close> be built from null, the booleans, the finite \<^verbatim>\<open>float64\<close>
  numbers, the strings of well-formed UTF-8, the lists of such values, of any
  length, and the maps of such values with keys of well-formed UTF-8, no list or
  map being nil. Suppose of \<^verbatim>\<open>strconv\<close> that it writes each number of \<open>v\<close>, in the
  formats \<^verbatim>\<open>f\<close> and \<^verbatim>\<open>e\<close>, as a decimal numeral which it reads back as the same
  number, and that it reads a text ending in \<^verbatim>\<open>e-0\<close> and a digit as it reads the text
  without that zero. Then encoding \<open>v\<close> succeeds, and decoding the bytes it gives
  into a destination of the shape of \<open>v\<close> succeeds, uses up the bytes and yields
  \<open>v\<close> itself, once the decoder is given the rounds \<open>fuel_needed v\<close> that its loops
  take. The result is equal to \<open>v\<close>, which is more than structurally equal; the
  members of a map come back in the order in which they were written.
\<close>

theorem roundtrip:
  assumes "exponent_zero_ignored L" and "roundtrippable L v" and "fuel_needed v \<le> fuel"
  shows "\<exists>bs. marshal L v = (bs, None) \<and> unmarshal L fuel bs (dest_of v) = Inr (v, [])"
proof -
  have m: "marshal L v = (text_of L v, None)"
    using marshalTo_roundtrippable(1) [OF assms(2), of "[]"] by (simp add: marshal_def)
  have "decodes L fuel v []"
    using decodes_roundtrippable(1) [OF assms(2,1) _ assms(3)] by (simp add: number_end_def)
  then have "unmarshal L fuel (text_of L v) (dest_of v) = Inr (v, [])"
    by (auto simp: decodes_def unmarshal_def unmarshalFrom_def)
  with m show ?thesis by simp
qed

theorem roundtrip_witness:
  \<open>exponent_zero_ignored strconv_decimal
   \<and> roundtrippable strconv_decimal
       (VMap [(''a'', VSlice [VFloat64 f64_123, VNil, VString ''x'', VBool True]),
              (''b'', VMap [(''c'', VFloat64 f64_1em9)]), (''d'', VSlice [])])
   \<and> fuel_needed
       (VMap [(''a'', VSlice [VFloat64 f64_123, VNil, VString ''x'', VBool True]),
              (''b'', VMap [(''c'', VFloat64 f64_1em9)]), (''d'', VSlice [])]) \<le> 6
   \<and> marshal strconv_decimal
       (VMap [(''a'', VSlice [VFloat64 f64_123, VNil, VString ''x'', VBool True]),
              (''b'', VMap [(''c'', VFloat64 f64_1em9)]), (''d'', VSlice [])])
       = (''{"a":[123,null,"x",true],"b":{"c":1e-9},"d":[]}'', None)
   \<and> unmarshal strconv_decimal 6 ''{"a":[123,null,"x",true],"b":{"c":1e-9},"d":[]}''
       (TyPtr TyMap)
       = Inr (VMap [(''a'', VSlice [VFloat64 f64_123, VNil, VString ''x'', VBool True]),
                    (''b'', VMap [(''c'', VFloat64 f64_1em9)]), (''d'', VSlice [])], [])\<close>
proof -
  let ?v = "VMap [(''a'', VSlice [VFloat64 f64_123, VNil, VString ''x'', VBool True]),
                  (''b'', VMap [(''c'', VFloat64 f64_1em9)]), (''d'', VSlice [])]"
  have ne: "f64_1em9 \<noteq> f64_123" by (simp add: f64_1em9_def f64_123_def)
  have t: "float_text strconv_decimal 64 f64_123 = ''123''"
    "float_text strconv_decimal 64 f64_1em9 = ''1e-9''"
    using ne by (simp_all add: float_text_def Let_def fmt_examples strconv_decimal_def
        clean_exponent_def)
  have rb: "strconv_reads_back strconv_decimal f64_123"
    "strconv_reads_back strconv_decimal f64_1em9"
    using ne by (simp_all add: strconv_reads_back_def strconv_decimal_def decimal_shape_def
        exponent_shape_def num_sign_def is_digit_def Let_def)
  have wf: "well_formed_utf8 ''a''" "well_formed_utf8 ''b''" "well_formed_utf8 ''c''"
    "well_formed_utf8 ''d''" "well_formed_utf8 ''x''"
    by (simp_all add: DecodeRuneInString.simps RuneError_def)
  have r: "roundtrippable strconv_decimal ?v"
    by (simp add: rb wf examples_finite del: well_formed_utf8.simps)
  have f: "fuel_needed ?v \<le> 6" by simp
  have m: \<open>marshal strconv_decimal ?v
       = (''{"a":[123,null,"x",true],"b":{"c":1e-9},"d":[]}'', None)\<close>
    by (simp add: marshal_def encodeString_buffer escape_ascii_def t float64Encoder_def
        encode_def examples_finite write_bb_buffer AppendBool_def buffer_Write_def
        Write_drop_def)
  have d: "dest_of ?v = TyPtr TyMap" by (simp add: dest_of_def)
  show ?thesis
    using strconv_decimal_zero r f m d roundtrip [of strconv_decimal ?v 6] by simp
qed

end
